theory Spec2Isabelle
  imports Main "HOL-Library.AList"
begin

section \<open>The policy controller of the validating admission policy plugin\<close>

text \<open>
  A shallow embedding of \<^verbatim>\<open>controller_reconcile.go\<close>
  (package \<^verbatim>\<open>validatingadmissionpolicy\<close>): the state guarded by the controller's
  mutex, the two reconcilers and the lazily rebuilt policy cache.

  Conventions of the embedding.
  \<^item> Every exported operation holds the mutex for its whole body, so an operation is one
    atomic state transformer on \<open>policyController\<close>.
  \<^item> A Go pointer that may be nil is an \<open>option\<close>; dereferencing nil is the value
    \<open>Inl NilPointerDereference\<close> of the operation.
  \<^item> The record maps hold pointers to records that are mutated in place. No pointer is
    stored under two keys, so the embedding stores the record itself and writes it back.
  \<^item> A slice is a list. The only slices of this file are built by \<^verbatim>\<open>var s []T\<close> followed
    by \<^verbatim>\<open>append\<close>, so a slice is nil exactly when it is empty: nil is \<open>[]\<close>.
  \<^item> The containers the code ranges over (\<^verbatim>\<open>definitionInfo\<close> and the sets of binding
    names) are lists, visited in list order; Go visits a map in an unspecified order, and a
    statement about every state covers every order. The containers that are only looked up
    are maps, and \<^verbatim>\<open>dependentDefinitions\<close>, which is never visited, is a set.
  \<^item> The calls that leave the controller (metrics, cancelling a context, starting an
    informer or a controller, the compiler) are returned as a trace next to the new state.
\<close>

subsection \<open>Data model\<close>

record namespacedName =
  namespace :: string
  name :: string

record ParamKind =
  APIVersion :: string
  Kind :: string

text \<open>The resources of the API, reduced to the fields this file reads, and one field for
  the remainder so that two versions of a resource can differ.\<close>

record ValidatingAdmissionPolicy =
  Spec_ParamKind :: "ParamKind option"
  Spec_Validations :: "string list"

record ValidatingAdmissionPolicyBinding =
  Spec_PolicyName :: string
  Spec_ParamRef :: "string option"

record GroupVersion =
  Group :: string
  Version :: string

record GroupKind =
  gk_Group :: string
  gk_Kind :: string

record GroupVersionKind =
  gvk_Group :: string
  gvk_Version :: string
  gvk_Kind :: string

datatype GroupVersionResource = GroupVersionResource string string string

record RESTMapping =
  Resource :: GroupVersionResource

datatype Validator = Validator string

datatype error =
    ServiceError string
  | FailedToParseApiVersion ParamKind error
  | FailedToFindResource GroupVersionKind

datatype panic = NilPointerDereference

text \<open>The controller built for a parameter kind, and the cancel function of the context it
  runs in. The code keeps at most one of each per kind, so the kind identifies them.\<close>

datatype Controller = ParamsController ParamKind GroupVersionResource

datatype CancelFunc = CancelInstanceContext ParamKind

datatype effect =
    ObserveDefinition string string
  | Cancel CancelFunc
  | RunInformer ParamKind GroupVersionResource
  | RunController Controller

record paramInfo =
  controller :: Controller
  stop :: CancelFunc
  dependentDefinitions :: "namespacedName set"

record definitionInfo =
  lastReconciledValue :: "ValidatingAdmissionPolicy option"
  configurationError :: "error option"

record bindingInfo =
  validator :: "Validator option"
  lastReconciledValue :: "ValidatingAdmissionPolicyBinding option"

record policyData =
  definitionInfo :: definitionInfo
  paramController :: "Controller option"
  bindings :: "bindingInfo list"

record policyController =
  cachedPolicies :: "policyData list"
  paramsCRDControllers :: "ParamKind \<rightharpoonup> paramInfo"
  definitionInfo :: "(namespacedName \<times> definitionInfo) list"
  bindingInfos :: "namespacedName \<rightharpoonup> bindingInfo"
  definitionsToBindings :: "namespacedName \<rightharpoonup> namespacedName list"

text \<open>The collaborators of the controller that live outside this file: the parser of
  \<^verbatim>\<open>schema.ParseGroupVersion\<close>, the REST mapper and the validator compiler. They are
  parameters of every operation; the REST mapper may answer differently from one reconcile
  to the next.\<close>

record services =
  ParseGroupVersion :: "string \<Rightarrow> error + GroupVersion"
  restMapper_RESTMapping :: "GroupKind \<Rightarrow> string \<Rightarrow> error + RESTMapping"
  ValidatorCompiler_Compile :: "ValidatingAdmissionPolicy option \<Rightarrow> Validator option"

subsection \<open>Construction\<close>

definition getNamespaceName :: "string \<Rightarrow> string \<Rightarrow> namespacedName" where
  "getNamespaceName ns n = \<lparr>namespace = ns, name = n\<rparr>"

definition newPolicyController :: policyController where
  "newPolicyController =
     \<lparr>cachedPolicies = [],
      paramsCRDControllers = Map.empty,
      definitionInfo = [],
      bindingInfos = Map.empty,
      definitionsToBindings = Map.empty\<rparr>"

text \<open>The zero values \<^verbatim>\<open>&definitionInfo{}\<close>, \<^verbatim>\<open>&bindingInfo{}\<close> and
  \<^verbatim>\<open>namespacedName{}\<close>.\<close>

definition zeroDefinitionInfo :: definitionInfo where
  "zeroDefinitionInfo =
     \<lparr>definitionInfo.lastReconciledValue = None, configurationError = None\<rparr>"

definition zeroBindingInfo :: bindingInfo where
  "zeroBindingInfo = \<lparr>validator = None, lastReconciledValue = None\<rparr>"

definition zeroNamespacedName :: namespacedName where
  "zeroNamespacedName = \<lparr>namespace = [], name = []\<rparr>"

text \<open>Ranging over a set that may be the nil value of a missing key.\<close>

definition dependentsOf ::
  "(namespacedName \<rightharpoonup> namespacedName list) \<Rightarrow> namespacedName \<Rightarrow> namespacedName list" where
  "dependentsOf idx nn = (case idx nn of None \<Rightarrow> [] | Some s \<Rightarrow> s)"

subsection \<open>reconcilePolicyDefinition\<close>

text \<open>Lines 151--157: fetch the record of the definition, or create it and observe the
  metric.\<close>

definition fetchDefinitionInfo ::
  "namespacedName \<Rightarrow> (namespacedName \<times> definitionInfo) list \<Rightarrow>
     definitionInfo \<times> (namespacedName \<times> definitionInfo) list \<times> effect list" where
  "fetchDefinitionInfo nn defs =
     (case map_of defs nn of
        Some info \<Rightarrow> (info, defs, [])
      | None \<Rightarrow> (zeroDefinitionInfo, defs @ [(nn, zeroDefinitionInfo)],
                 [ObserveDefinition ''active'' ''deny'']))"

text \<open>Lines 166--182: when the definition had a parameter kind and the new value has none
  or another one, the definition stops being a dependent of the old kind's controller, and
  a controller left without dependents is stopped and forgotten.\<close>

definition removeOldDependency ::
  "namespacedName \<Rightarrow> definitionInfo \<Rightarrow> ParamKind option \<Rightarrow> (ParamKind \<rightharpoonup> paramInfo) \<Rightarrow>
     (ParamKind \<rightharpoonup> paramInfo) \<times> effect list" where
  "removeOldDependency nn info paramSource ctrls =
     (case definitionInfo.lastReconciledValue info of
        None \<Rightarrow> (ctrls, [])
      | Some old \<Rightarrow>
          (case Spec_ParamKind old of
             None \<Rightarrow> (ctrls, [])
           | Some oldParamSource \<Rightarrow>
               if paramSource = None \<or> paramSource \<noteq> Some oldParamSource then
                 (case ctrls oldParamSource of
                    None \<Rightarrow> (ctrls, [])
                  | Some oldParamInfo \<Rightarrow>
                      let deps = dependentDefinitions oldParamInfo - {nn} in
                      if deps = {} then
                        (ctrls(oldParamSource := None), [Cancel (stop oldParamInfo)])
                      else
                        (ctrls(oldParamSource \<mapsto> oldParamInfo\<lparr>dependentDefinitions := deps\<rparr>),
                         []))
               else (ctrls, [])))"

text \<open>Lines 186--190: the validator of every binding listed under the definition is reset.
  A listed name without a record is a nil pointer, and writing its field panics.\<close>

fun resetValidators ::
  "namespacedName list \<Rightarrow> (namespacedName \<rightharpoonup> bindingInfo) \<Rightarrow>
     panic + (namespacedName \<rightharpoonup> bindingInfo)" where
  "resetValidators [] bis = Inr bis"
| "resetValidators (key # keys) bis =
     (case bis key of
        None \<Rightarrow> Inl NilPointerDereference
      | Some info \<Rightarrow> resetValidators keys (bis(key \<mapsto> info\<lparr>validator := None\<rparr>)))"

text \<open>Lines 232--263: a controller is started for a parameter kind that has none, with the
  definition as its only dependent. Nothing is done for a kind that has one already.\<close>

definition startParamController ::
  "namespacedName \<Rightarrow> ParamKind \<Rightarrow> RESTMapping \<Rightarrow> (ParamKind \<rightharpoonup> paramInfo) \<Rightarrow>
     (ParamKind \<rightharpoonup> paramInfo) \<times> effect list" where
  "startParamController nn paramSource paramsGVR ctrls =
     (case ctrls paramSource of
        Some _ \<Rightarrow> (ctrls, [])
      | None \<Rightarrow>
          let ctl = ParamsController paramSource (Resource paramsGVR) in
          (ctrls(paramSource \<mapsto>
             \<lparr>controller = ctl,
              stop = CancelInstanceContext paramSource,
              dependentDefinitions = {nn}\<rparr>),
           [RunInformer paramSource (Resource paramsGVR), RunController ctl]))"

text \<open>Lines 197--265: the record takes the new value, and the parameter kind is parsed and
  resolved. The result is the returned error, the record and the controllers.\<close>

definition updateDefinition ::
  "services \<Rightarrow> namespacedName \<Rightarrow> ValidatingAdmissionPolicy \<Rightarrow> definitionInfo \<Rightarrow>
     (ParamKind \<rightharpoonup> paramInfo) \<Rightarrow>
     error option \<times> definitionInfo \<times> (ParamKind \<rightharpoonup> paramInfo) \<times> effect list" where
  "updateDefinition sv nn definition info0 ctrls =
     (let info = info0\<lparr>definitionInfo.lastReconciledValue := Some definition,
                       configurationError := None\<rparr> in
      case Spec_ParamKind definition of
        None \<Rightarrow> (None, info, ctrls, [])
      | Some paramSource \<Rightarrow>
          (case ParseGroupVersion sv (APIVersion paramSource) of
             Inl err \<Rightarrow>
               (None,
                info\<lparr>configurationError := Some (FailedToParseApiVersion paramSource err)\<rparr>,
                ctrls, [])
           | Inr paramSourceGV \<Rightarrow>
               (case restMapper_RESTMapping sv
                       \<lparr>gk_Group = Group paramSourceGV, gk_Kind = Kind paramSource\<rparr>
                       (Version paramSourceGV) of
                  Inl err \<Rightarrow>
                    (let e = FailedToFindResource
                               \<lparr>gvk_Group = Group paramSourceGV,
                                gvk_Version = Version paramSourceGV,
                                gvk_Kind = Kind paramSource\<rparr>
                     in (Some e, info\<lparr>configurationError := Some e\<rparr>, ctrls, []))
                | Inr paramsGVR \<Rightarrow>
                    (case startParamController nn paramSource paramsGVR ctrls of
                       (ctrls', effs) \<Rightarrow> (None, info, ctrls', effs)))))"

definition reconcilePolicyDefinition ::
  "services \<Rightarrow> string \<Rightarrow> string \<Rightarrow> ValidatingAdmissionPolicy option \<Rightarrow> policyController \<Rightarrow>
     panic + (error option \<times> policyController \<times> effect list)" where
  "reconcilePolicyDefinition sv ns n definition c =
     (let nn = getNamespaceName ns n;
          (info, defs, effs1) = fetchDefinitionInfo nn (definitionInfo c);
          paramSource = (case definition of None \<Rightarrow> None | Some d \<Rightarrow> Spec_ParamKind d);
          (ctrls, effs2) = removeOldDependency nn info paramSource (paramsCRDControllers c)
      in
      (case resetValidators (dependentsOf (definitionsToBindings c) nn) (bindingInfos c) of
         Inl p \<Rightarrow> Inl p
       | Inr bis \<Rightarrow>
           (case definition of
              None \<Rightarrow>
                Inr (None,
                     c\<lparr>cachedPolicies := [],
                       paramsCRDControllers := ctrls,
                       definitionInfo := AList.delete nn defs,
                       bindingInfos := bis\<rparr>,
                     effs1 @ effs2)
            | Some d \<Rightarrow>
                (let (err, info', ctrls', effs3) = updateDefinition sv nn d info ctrls in
                 Inr (err,
                      c\<lparr>cachedPolicies := [],
                        paramsCRDControllers := ctrls',
                        definitionInfo := AList.update nn info' defs,
                        bindingInfos := bis\<rparr>,
                      effs1 @ effs2 @ effs3)))))"

subsection \<open>reconcilePolicyBinding\<close>

text \<open>Lines 278--282: fetch the record of the binding, or create it.\<close>

definition fetchBindingInfo ::
  "namespacedName \<Rightarrow> (namespacedName \<rightharpoonup> bindingInfo) \<Rightarrow>
     bindingInfo \<times> (namespacedName \<rightharpoonup> bindingInfo)" where
  "fetchBindingInfo nn bis =
     (case bis nn of
        Some info \<Rightarrow> (info, bis)
      | None \<Rightarrow> (zeroBindingInfo, bis(nn \<mapsto> zeroBindingInfo)))"

text \<open>Lines 296--308: the binding leaves the set of the definition it referred to, and a
  set left empty is removed with its key.\<close>

definition removeFromOldDefinition ::
  "namespacedName \<Rightarrow> namespacedName \<Rightarrow> namespacedName \<Rightarrow>
     (namespacedName \<rightharpoonup> namespacedName list) \<Rightarrow> (namespacedName \<rightharpoonup> namespacedName list)" where
  "removeFromOldDefinition nn oldNamespacedDefinitionName namespacedDefinitionName idx =
     (if oldNamespacedDefinitionName \<noteq> namespacedDefinitionName then
        (case idx oldNamespacedDefinitionName of
           None \<Rightarrow> idx
         | Some dependentBindings \<Rightarrow>
             let remaining = removeAll nn dependentBindings in
             if remaining = [] then idx(oldNamespacedDefinitionName := None)
             else idx(oldNamespacedDefinitionName \<mapsto> remaining))
      else idx)"

text \<open>Lines 315--320: the binding joins the set of the definition it refers to.\<close>

definition addToNewDefinition ::
  "namespacedName \<Rightarrow> namespacedName \<Rightarrow>
     (namespacedName \<rightharpoonup> namespacedName list) \<Rightarrow> (namespacedName \<rightharpoonup> namespacedName list)" where
  "addToNewDefinition nn namespacedDefinitionName idx =
     (case idx namespacedDefinitionName of
        Some dependentBindings \<Rightarrow>
          idx(namespacedDefinitionName \<mapsto> List.insert nn dependentBindings)
      | None \<Rightarrow> idx(namespacedDefinitionName \<mapsto> [nn]))"

definition reconcilePolicyBinding ::
  "string \<Rightarrow> string \<Rightarrow> ValidatingAdmissionPolicyBinding option \<Rightarrow> policyController \<Rightarrow>
     error option \<times> policyController" where
  "reconcilePolicyBinding ns n binding c =
     (let nn = getNamespaceName ns n;
          (info, bis) = fetchBindingInfo nn (bindingInfos c);
          oldNamespacedDefinitionName =
            (case lastReconciledValue info of
               None \<Rightarrow> zeroNamespacedName
             | Some old \<Rightarrow> getNamespaceName [] (Spec_PolicyName old));
          namespacedDefinitionName =
            (case binding of
               None \<Rightarrow> zeroNamespacedName
             | Some b \<Rightarrow> getNamespaceName [] (Spec_PolicyName b));
          idx = removeFromOldDefinition nn oldNamespacedDefinitionName
                  namespacedDefinitionName (definitionsToBindings c)
      in
      (case binding of
         None \<Rightarrow>
           (None,
            c\<lparr>cachedPolicies := [],
              bindingInfos := bis(nn := None),
              definitionsToBindings := idx\<rparr>)
       | Some b \<Rightarrow>
           (let info' = info\<lparr>validator := None, lastReconciledValue := Some b\<rparr> in
            (None,
             c\<lparr>cachedPolicies := [],
               bindingInfos := bis(nn \<mapsto> info'),
               definitionsToBindings := addToNewDefinition nn namespacedDefinitionName idx\<rparr>))))"

subsection \<open>latestPolicyData\<close>

text \<open>Lines 356--362: the bindings of one definition are visited; a binding without a
  validator is compiled unless the definition has a configuration error, the validator is
  stored in the shared record, and a copy of the record is appended. The trace names the
  definition and the binding of every call to the compiler.\<close>

fun collectBindings ::
  "services \<Rightarrow> namespacedName \<Rightarrow> definitionInfo \<Rightarrow> namespacedName list \<Rightarrow>
     (namespacedName \<rightharpoonup> bindingInfo) \<Rightarrow>
     panic + (bindingInfo list \<times> (namespacedName \<times> namespacedName) list \<times>
              (namespacedName \<rightharpoonup> bindingInfo))" where
  "collectBindings sv definitionNN info [] bis = Inr ([], [], bis)"
| "collectBindings sv definitionNN info (bindingNN # rest) bis =
     (case bis bindingNN of
        None \<Rightarrow> Inl NilPointerDereference
      | Some b \<Rightarrow>
          if validator b = None \<and> configurationError info = None then
            (let b' = b\<lparr>validator :=
                         ValidatorCompiler_Compile sv (definitionInfo.lastReconciledValue info)\<rparr>
             in case collectBindings sv definitionNN info rest (bis(bindingNN \<mapsto> b')) of
                  Inl p \<Rightarrow> Inl p
                | Inr (out, calls, bis') \<Rightarrow>
                    Inr (b' # out, (definitionNN, bindingNN) # calls, bis'))
          else
            (case collectBindings sv definitionNN info rest bis of
               Inl p \<Rightarrow> Inl p
             | Inr (out, calls, bis') \<Rightarrow> Inr (b # out, calls, bis')))"

text \<open>Lines 364--369: the controller of the definition's parameter kind, when the kind has
  one. The definition's value is dereferenced, and a record without a value panics.\<close>

definition findParamController ::
  "(ParamKind \<rightharpoonup> paramInfo) \<Rightarrow> definitionInfo \<Rightarrow> panic + Controller option" where
  "findParamController ctrls info =
     (case definitionInfo.lastReconciledValue info of
        None \<Rightarrow> Inl NilPointerDereference
      | Some d \<Rightarrow>
          (case Spec_ParamKind d of
             None \<Rightarrow> Inr None
           | Some paramKind \<Rightarrow>
               (case ctrls paramKind of
                  None \<Rightarrow> Inr None
                | Some pinfo \<Rightarrow> Inr (Some (controller pinfo)))))"

text \<open>Lines 353--376: one entry per definition record, in the order of the visit.\<close>

fun rebuildPolicies ::
  "services \<Rightarrow> (ParamKind \<rightharpoonup> paramInfo) \<Rightarrow> (namespacedName \<rightharpoonup> namespacedName list) \<Rightarrow>
     (namespacedName \<times> definitionInfo) list \<Rightarrow> (namespacedName \<rightharpoonup> bindingInfo) \<Rightarrow>
     panic + (policyData list \<times> (namespacedName \<times> namespacedName) list \<times>
              (namespacedName \<rightharpoonup> bindingInfo))" where
  "rebuildPolicies sv ctrls idx [] bis = Inr ([], [], bis)"
| "rebuildPolicies sv ctrls idx ((definitionNN, info) # rest) bis =
     (case collectBindings sv definitionNN info (dependentsOf idx definitionNN) bis of
        Inl p \<Rightarrow> Inl p
      | Inr (infos, calls1, bis1) \<Rightarrow>
          (case findParamController ctrls info of
             Inl p \<Rightarrow> Inl p
           | Inr pc \<Rightarrow>
               (case rebuildPolicies sv ctrls idx rest bis1 of
                  Inl p \<Rightarrow> Inl p
                | Inr (res, calls2, bis2) \<Rightarrow>
                    Inr (\<lparr>policyData.definitionInfo = info,
                          paramController = pc,
                          bindings = infos\<rparr> # res,
                         calls1 @ calls2, bis2))))"

text \<open>Lines 338--380: the cached list is returned when there is one; otherwise the list is
  rebuilt and stored. The result is the list, the calls made to the compiler and the new
  state.\<close>

definition latestPolicyData ::
  "services \<Rightarrow> policyController \<Rightarrow>
     panic + (policyData list \<times> (namespacedName \<times> namespacedName) list \<times> policyController)" where
  "latestPolicyData sv c =
     (if cachedPolicies c \<noteq> [] then Inr (cachedPolicies c, [], c)
      else
        (case rebuildPolicies sv (paramsCRDControllers c) (definitionsToBindings c)
                (definitionInfo c) (bindingInfos c) of
           Inl p \<Rightarrow> Inl p
         | Inr (res, calls, bis) \<Rightarrow>
             Inr (res, calls, c\<lparr>bindingInfos := bis, cachedPolicies := res\<rparr>)))"

subsection \<open>Sequences of calls\<close>

text \<open>The calls a controller receives, and their effect on the state one after the other.
  A panic ends the sequence.\<close>

datatype event =
    ReconcileDefinition services string string "ValidatingAdmissionPolicy option"
  | ReconcileBinding string string "ValidatingAdmissionPolicyBinding option"
  | LatestPolicyData services

fun step :: "event \<Rightarrow> policyController \<Rightarrow> panic + (error option \<times> policyController)" where
  "step (ReconcileDefinition sv ns n d) c =
     (case reconcilePolicyDefinition sv ns n d c of
        Inl p \<Rightarrow> Inl p
      | Inr (err, c', effs) \<Rightarrow> Inr (err, c'))"
| "step (ReconcileBinding ns n b) c = Inr (reconcilePolicyBinding ns n b c)"
| "step (LatestPolicyData sv) c =
     (case latestPolicyData sv c of
        Inl p \<Rightarrow> Inl p
      | Inr (res, calls, c') \<Rightarrow> Inr (None, c'))"

fun run :: "event list \<Rightarrow> policyController \<Rightarrow> panic + (error option list \<times> policyController)" where
  "run [] c = Inr ([], c)"
| "run (e # es) c =
     (case step e c of
        Inl p \<Rightarrow> Inl p
      | Inr (err, c') \<Rightarrow>
          (case run es c' of
             Inl p \<Rightarrow> Inl p
           | Inr (errs, c'') \<Rightarrow> Inr (err # errs, c'')))"

subsection \<open>Predicates on states\<close>

text \<open>What resetting the validators of a list of bindings leaves in the record map.\<close>

definition clearValidators ::
  "namespacedName list \<Rightarrow> (namespacedName \<rightharpoonup> bindingInfo) \<Rightarrow> (namespacedName \<rightharpoonup> bindingInfo)" where
  "clearValidators keys bis =
     (\<lambda>k. if k \<in> set keys then map_option (\<lambda>info. info\<lparr>validator := None\<rparr>) (bis k) else bis k)"

text \<open>Every binding listed under the definition has a record: the loop that resets the
  validators dereferences no nil pointer.\<close>

definition dependentsKnown :: "policyController \<Rightarrow> namespacedName \<Rightarrow> bool" where
  "dependentsKnown c nn =
     list_all (\<lambda>key. bindingInfos c key \<noteq> None) (dependentsOf (definitionsToBindings c) nn)"

text \<open>Every definition record of the list holds a value and every binding listed under
  one of them has a record: the rebuild dereferences no nil pointer.\<close>

definition bindingsKnown ::
  "(namespacedName \<rightharpoonup> namespacedName list) \<Rightarrow> (namespacedName \<rightharpoonup> bindingInfo) \<Rightarrow>
     (namespacedName \<times> definitionInfo) list \<Rightarrow> bool" where
  "bindingsKnown idx bis defs =
     list_all (\<lambda>(definitionNN, info).
        definitionInfo.lastReconciledValue info \<noteq> None \<and>
        list_all (\<lambda>k. bis k \<noteq> None) (dependentsOf idx definitionNN)) defs"

definition snapshotComputable :: "policyController \<Rightarrow> bool" where
  "snapshotComputable c =
     bindingsKnown (definitionsToBindings c) (bindingInfos c) (definitionInfo c)"

text \<open>What the visit of one binding leaves in its record (lines 358--360).\<close>

definition visitBinding :: "services \<Rightarrow> definitionInfo \<Rightarrow> bindingInfo \<Rightarrow> bindingInfo" where
  "visitBinding sv info b =
     (if validator b = None \<and> configurationError info = None
      then b\<lparr>validator := ValidatorCompiler_Compile sv (definitionInfo.lastReconciledValue info)\<rparr>
      else b)"

text \<open>A snapshot entry that belongs to a definition record: it copies the record and
  lists, in the order of the index, the bindings the index holds for the definition, each
  with the value last reconciled for it.\<close>

definition snapshotEntryOf ::
  "policyController \<Rightarrow> namespacedName \<times> definitionInfo \<Rightarrow> policyData \<Rightarrow> bool" where
  "snapshotEntryOf c =
     (\<lambda>(definitionNN, info) pd.
        policyData.definitionInfo pd = info \<and>
        map lastReconciledValue (bindings pd) =
          map (\<lambda>k. lastReconciledValue (the (bindingInfos c k)))
            (dependentsOf (definitionsToBindings c) definitionNN))"

text \<open>The parameter kind the record of a definition declares, if any.\<close>

definition declaredKind :: "policyController \<Rightarrow> namespacedName \<Rightarrow> ParamKind option" where
  "declaredKind c nn =
     (case map_of (definitionInfo c) nn of
        None \<Rightarrow> None
      | Some info \<Rightarrow>
          (case definitionInfo.lastReconciledValue info of
             None \<Rightarrow> None
           | Some old \<Rightarrow> Spec_ParamKind old))"

text \<open>The bindings the rebuild visits, definition record after definition record.\<close>

definition visitedBindings :: "policyController \<Rightarrow> namespacedName list" where
  "visitedBindings c =
     concat (map (\<lambda>(definitionNN, info). dependentsOf (definitionsToBindings c) definitionNN)
               (definitionInfo c))"

subsection \<open>Consistency of the index\<close>

text \<open>The two invariants the comment of lines 72--76 asks of \<^verbatim>\<open>definitionsToBindings\<close>:
  every key has at least one dependent binding, and every binding name is a key of
  \<^verbatim>\<open>bindingInfos\<close>.\<close>

definition indexInvariant :: "policyController \<Rightarrow> bool" where
  "indexInvariant c =
     (\<forall>definitionNN s. definitionsToBindings c definitionNN = Some s \<longrightarrow>
        s \<noteq> [] \<and> (\<forall>bindingNN \<in> set s. bindingInfos c bindingNN \<noteq> None))"

text \<open>The value last reconciled for a binding, when the binding has a record.\<close>

definition bindingValue ::
  "policyController \<Rightarrow> namespacedName \<Rightarrow> ValidatingAdmissionPolicyBinding option option" where
  "bindingValue c k = map_option lastReconciledValue (bindingInfos c k)"

text \<open>Every set of the index is a non-empty set.\<close>

definition setsProper :: "(namespacedName \<rightharpoonup> namespacedName list) \<Rightarrow> bool" where
  "setsProper idx = (\<forall>d s. idx d = Some s \<longrightarrow> s \<noteq> [] \<and> distinct s)"

text \<open>The invariant the reconcilers keep while every binding names its policy: the index
  lists a binding under a definition exactly when the value last reconciled for the binding
  names that definition; every binding record holds a value with a non-empty policy name;
  every definition record holds a value; no definition has two records.\<close>

definition wellFormed :: "policyController \<Rightarrow> bool" where
  "wellFormed c =
     (setsProper (definitionsToBindings c) \<and>
      (\<forall>definitionNN bindingNN.
         bindingNN \<in> set (dependentsOf (definitionsToBindings c) definitionNN) \<longleftrightarrow>
         (\<exists>v. bindingValue c bindingNN = Some (Some v) \<and>
              getNamespaceName [] (Spec_PolicyName v) = definitionNN)) \<and>
      (\<forall>bindingNN x. bindingValue c bindingNN = Some x \<longrightarrow>
         (\<exists>v. x = Some v \<and> Spec_PolicyName v \<noteq> [])) \<and>
      list_all (\<lambda>(definitionNN, info). definitionInfo.lastReconciledValue info \<noteq> None)
        (definitionInfo c) \<and>
      distinct (map fst (definitionInfo c)))"

text \<open>An event whose binding value, if any, names a policy.\<close>

fun namedPolicy :: "event \<Rightarrow> bool" where
  "namedPolicy (ReconcileBinding ns n (Some b)) = (Spec_PolicyName b \<noteq> [])"
| "namedPolicy e = True"

subsection \<open>Sample services and resources\<close>

text \<open>Test doubles for the collaborators. The parser accepts a bare version and rejects
  \<^verbatim>\<open>a/b/c\<close>; the mapper knows the kinds it is given; the compiler returns one
  validator.\<close>

definition parseStub :: "string \<Rightarrow> error + GroupVersion" where
  "parseStub gv =
     (if gv = ''a/b/c'' then Inl (ServiceError ''unexpected GroupVersion string'')
      else Inr \<lparr>Group = [], Version = gv\<rparr>)"

definition mapperStub :: "string list \<Rightarrow> GroupKind \<Rightarrow> string \<Rightarrow> error + RESTMapping" where
  "mapperStub registered gk version =
     (if gk_Kind gk \<in> set registered
      then Inr \<lparr>Resource = GroupVersionResource (gk_Group gk) version (gk_Kind gk)\<rparr>
      else Inl (ServiceError ''no matches for kind''))"

definition servicesStub :: "string list \<Rightarrow> services" where
  "servicesStub registered =
     \<lparr>ParseGroupVersion = parseStub,
      restMapper_RESTMapping = mapperStub registered,
      ValidatorCompiler_Compile = (\<lambda>d. Some (Validator ''compiled''))\<rparr>"

definition configMapKind :: ParamKind where
  "configMapKind = \<lparr>APIVersion = ''v1'', Kind = ''ConfigMap''\<rparr>"

definition malformedKind :: ParamKind where
  "malformedKind = \<lparr>APIVersion = ''a/b/c'', Kind = ''ConfigMap''\<rparr>"

definition policyWith :: "ParamKind option \<Rightarrow> ValidatingAdmissionPolicy" where
  "policyWith pk = \<lparr>Spec_ParamKind = pk, Spec_Validations = [''object.spec.replicas <= 5'']\<rparr>"

definition bindingTo :: "string \<Rightarrow> ValidatingAdmissionPolicyBinding" where
  "bindingTo policyName = \<lparr>Spec_PolicyName = policyName, Spec_ParamRef = None\<rparr>"

definition configMapController :: Controller where
  "configMapController = ParamsController configMapKind (GroupVersionResource [] ''v1'' ''ConfigMap'')"

text \<open>The state after \<^verbatim>\<open>policy-A\<close> was reconciled with the kind ConfigMap,
  \<^verbatim>\<open>binding-1\<close> was reconciled with \<^verbatim>\<open>policy-A\<close> as its policy and the
  policy data was read once (which compiled the validator of the binding), and the state
  before that read.\<close>

definition compiledState :: policyController where
  "compiledState =
     \<lparr>cachedPolicies =
        [\<lparr>policyData.definitionInfo =
            \<lparr>definitionInfo.lastReconciledValue = Some (policyWith (Some configMapKind)),
             configurationError = None\<rparr>,
          paramController = Some configMapController,
          bindings = [\<lparr>validator = Some (Validator ''compiled''),
                       lastReconciledValue = Some (bindingTo ''policy-A'')\<rparr>]\<rparr>],
      paramsCRDControllers =
        [configMapKind \<mapsto>
           \<lparr>controller = configMapController,
            stop = CancelInstanceContext configMapKind,
            dependentDefinitions = {getNamespaceName [] ''policy-A''}\<rparr>],
      definitionInfo =
        [(getNamespaceName [] ''policy-A'',
          \<lparr>definitionInfo.lastReconciledValue = Some (policyWith (Some configMapKind)),
           configurationError = None\<rparr>)],
      bindingInfos =
        [getNamespaceName [] ''binding-1'' \<mapsto>
           \<lparr>validator = Some (Validator ''compiled''),
            lastReconciledValue = Some (bindingTo ''policy-A'')\<rparr>],
      definitionsToBindings =
        [getNamespaceName [] ''policy-A'' \<mapsto> [getNamespaceName [] ''binding-1'']]\<rparr>"

definition reconciledState :: policyController where
  "reconciledState =
     compiledState
       \<lparr>cachedPolicies := [],
        bindingInfos :=
          [getNamespaceName [] ''binding-1'' \<mapsto>
             \<lparr>validator = None, lastReconciledValue = Some (bindingTo ''policy-A'')\<rparr>]\<rparr>"

text \<open>A state with two definitions and one binding each, no validator compiled yet:
  \<^verbatim>\<open>policy-A\<close> as above, and \<^verbatim>\<open>policy-bad\<close>, whose parameter kind did not parse
  and whose record holds the configuration error.\<close>

definition mixedState :: policyController where
  "mixedState =
     \<lparr>cachedPolicies = [],
      paramsCRDControllers =
        [configMapKind \<mapsto>
           \<lparr>controller = configMapController,
            stop = CancelInstanceContext configMapKind,
            dependentDefinitions = {getNamespaceName [] ''policy-A''}\<rparr>],
      definitionInfo =
        [(getNamespaceName [] ''policy-A'',
          \<lparr>definitionInfo.lastReconciledValue = Some (policyWith (Some configMapKind)),
           configurationError = None\<rparr>),
         (getNamespaceName [] ''policy-bad'',
          \<lparr>definitionInfo.lastReconciledValue = Some (policyWith (Some malformedKind)),
           configurationError =
             Some (FailedToParseApiVersion malformedKind
                     (ServiceError ''unexpected GroupVersion string''))\<rparr>)],
      bindingInfos =
        [getNamespaceName [] ''binding-1'' \<mapsto>
           \<lparr>validator = None, lastReconciledValue = Some (bindingTo ''policy-A'')\<rparr>,
         getNamespaceName [] ''binding-2'' \<mapsto>
           \<lparr>validator = None, lastReconciledValue = Some (bindingTo ''policy-bad'')\<rparr>],
      definitionsToBindings =
        [getNamespaceName [] ''policy-A'' \<mapsto> [getNamespaceName [] ''binding-1''],
         getNamespaceName [] ''policy-bad'' \<mapsto> [getNamespaceName [] ''binding-2'']]\<rparr>"

section \<open>Auxiliary facts\<close>

lemmas op_defs = Let_def reconcilePolicyDefinition_def fetchDefinitionInfo_def
  removeOldDependency_def dependentsOf_def updateDefinition_def startParamController_def
  getNamespaceName_def zeroDefinitionInfo_def reconcilePolicyBinding_def fetchBindingInfo_def
  removeFromOldDefinition_def addToNewDefinition_def zeroBindingInfo_def zeroNamespacedName_def
  latestPolicyData_def findParamController_def

lemmas fixture_defs = newPolicyController_def parseStub_def mapperStub_def servicesStub_def
  configMapKind_def malformedKind_def policyWith_def bindingTo_def configMapController_def
  compiledState_def reconciledState_def mixedState_def

text \<open>The loop that resets the validators either panics at a listed binding without a
  record, or clears the validator of every listed binding and leaves the rest alone.\<close>

lemma resetValidators_eq:
  "resetValidators keys bis =
     (if list_all (\<lambda>k. bis k \<noteq> None) keys then Inr (clearValidators keys bis)
      else Inl NilPointerDereference)"
proof (induction keys arbitrary: bis)
  case Nil
  show ?case by (simp add: clearValidators_def)
next
  case (Cons key keys)
  show ?case
  proof (cases "bis key")
    case None
    then show ?thesis by simp
  next
    case (Some info)
    let ?bis = "bis(key \<mapsto> info\<lparr>validator := None\<rparr>)"
    have dom: "list_all (\<lambda>k. ?bis k \<noteq> None) keys = list_all (\<lambda>k. bis k \<noteq> None) keys"
      using Some by (auto simp: list_all_iff)
    have upd: "clearValidators keys ?bis = clearValidators (key # keys) bis"
      using Some by (auto simp: clearValidators_def fun_eq_iff)
    have "resetValidators (key # keys) bis = resetValidators keys ?bis"
      using Some by simp
    also have "\<dots> = (if list_all (\<lambda>k. ?bis k \<noteq> None) keys then Inr (clearValidators keys ?bis)
                      else Inl NilPointerDereference)"
      by (rule Cons.IH)
    also have "\<dots> = (if list_all (\<lambda>k. bis k \<noteq> None) keys
                      then Inr (clearValidators (key # keys) bis) else Inl NilPointerDereference)"
      by (simp only: dom upd)
    also have "\<dots> = (if list_all (\<lambda>k. bis k \<noteq> None) (key # keys)
                      then Inr (clearValidators (key # keys) bis) else Inl NilPointerDereference)"
      using Some by simp
    finally show ?thesis .
  qed
qed

lemma resetValidators_known:
  "dependentsKnown c nn \<Longrightarrow>
   resetValidators (dependentsOf (definitionsToBindings c) nn) (bindingInfos c) =
     Inr (clearValidators (dependentsOf (definitionsToBindings c) nn) (bindingInfos c))"
  by (simp add: resetValidators_eq dependentsKnown_def)

lemma clearValidators_known:
  "dependentsKnown c nn \<Longrightarrow> key \<in> set (dependentsOf (definitionsToBindings c) nn) \<Longrightarrow>
   \<exists>info. bindingInfos c key = Some info \<and>
     clearValidators (dependentsOf (definitionsToBindings c) nn) (bindingInfos c) key =
       Some (info\<lparr>validator := None\<rparr>)"
  by (auto simp: dependentsKnown_def clearValidators_def list_all_iff)

lemma reconcilePolicyDefinition_panics:
  "\<not> dependentsKnown c (getNamespaceName ns n) \<Longrightarrow>
   reconcilePolicyDefinition sv ns n d c = Inl NilPointerDereference"
  by (simp add: reconcilePolicyDefinition_def resetValidators_eq dependentsKnown_def Let_def
        split: prod.splits)

text \<open>The sample states are states the controller reaches from the empty one.\<close>

lemma reconciledState_reached:
  "run [ReconcileDefinition (servicesStub [''ConfigMap'']) [] ''policy-A''
          (Some (policyWith (Some configMapKind))),
        ReconcileBinding [] ''binding-1'' (Some (bindingTo ''policy-A''))]
       newPolicyController
   = Inr ([None, None], reconciledState)"
  by (simp add: op_defs fixture_defs)

lemma compiledState_reached:
  "run [LatestPolicyData (servicesStub [''ConfigMap''])] reconciledState
   = Inr ([None], compiledState)"
  by (simp add: op_defs fixture_defs)

lemma mixedState_reached:
  "run [ReconcileDefinition (servicesStub [''ConfigMap'']) [] ''policy-A''
          (Some (policyWith (Some configMapKind))),
        ReconcileBinding [] ''binding-1'' (Some (bindingTo ''policy-A'')),
        ReconcileDefinition (servicesStub [''ConfigMap'']) [] ''policy-bad''
          (Some (policyWith (Some malformedKind))),
        ReconcileBinding [] ''binding-2'' (Some (bindingTo ''policy-bad''))]
       newPolicyController
   = Inr ([None, None, None, None], mixedState)"
  by (simp add: op_defs fixture_defs)

section \<open>The parameter watch entries\<close>

text \<open>C1. The claim: whenever a definition declaring the parameter kind K is reconciled
  with success, the entry of K exists and its dependents hold the definition; after two
  definitions declaring K, the dependents hold both, and the entry is stopped and deleted
  only when no declaring definition remains.

  The code registers a definition as a dependent only when it creates the entry (line 258).
  For a kind that has an entry already, the branch of line 233 is skipped and nothing is
  inserted. So after \<^verbatim>\<open>policy-A\<close> and \<^verbatim>\<open>policy-B\<close> were both reconciled with
  success declaring ConfigMap, the dependents of ConfigMap are \<^verbatim>\<open>policy-A\<close> alone, and
  deleting \<^verbatim>\<open>policy-A\<close> cancels the loop and deletes the entry although
  \<^verbatim>\<open>policy-B\<close> still declares the kind.\<close>

theorem second_declaring_definition_not_counted:
  "(case run [ReconcileDefinition (servicesStub [''ConfigMap'']) [] ''policy-A''
                (Some (policyWith (Some configMapKind))),
              ReconcileDefinition (servicesStub [''ConfigMap'']) [] ''policy-B''
                (Some (policyWith (Some configMapKind)))]
             newPolicyController of
      Inl p \<Rightarrow> False
    | Inr (errs, c) \<Rightarrow>
        errs = [None, None] \<and>
        map_option dependentDefinitions (paramsCRDControllers c configMapKind)
          = Some {getNamespaceName [] ''policy-A''} \<and>
        (case reconcilePolicyDefinition (servicesStub [''ConfigMap'']) [] ''policy-A'' None c of
           Inl p \<Rightarrow> False
         | Inr (err, c', effs) \<Rightarrow>
             err = None \<and>
             effs = [Cancel (CancelInstanceContext configMapKind)] \<and>
             paramsCRDControllers c' configMapKind = None \<and>
             map_of (definitionInfo c') (getNamespaceName [] ''policy-B'') =
               Some \<lparr>definitionInfo.lastReconciledValue = Some (policyWith (Some configMapKind)),
                     configurationError = None\<rparr>))"
  by (simp add: op_defs fixture_defs)

section \<open>The dependency index\<close>

text \<open>C2. The claim: after every finite sequence of reconciles from the empty state, every
  key of \<^verbatim>\<open>definitionsToBindings\<close> has a non-empty set and every binding in a set has
  a record in \<^verbatim>\<open>bindingInfos\<close>.

  The code takes the zero \<^verbatim>\<open>namespacedName\<close> for "no definition", on both sides of
  the comparison of line 298. A binding whose policy name is the empty string refers to
  the definition with that very name, so deleting the binding compares equal names, skips
  the removal, and deletes the record: the index keeps a binding without a record. (For
  sequences in which every binding names its policy the invariants hold; see
  \<open>reachable_states_are_consistent\<close> below.)\<close>

theorem empty_policy_name_leaves_stale_index_entry:
  "(case run [ReconcileBinding [] ''binding-1'' (Some (bindingTo [])),
              ReconcileBinding [] ''binding-1'' None]
             newPolicyController of
      Inl p \<Rightarrow> False
    | Inr (errs, c) \<Rightarrow>
        errs = [None, None] \<and>
        definitionsToBindings c (getNamespaceName [] []) = Some [getNamespaceName [] ''binding-1''] \<and>
        bindingInfos c (getNamespaceName [] ''binding-1'') = None)"
  by (simp add: op_defs fixture_defs)

text \<open>In the terms of the invariant: the state after the two calls violates it.\<close>

lemma stale_index_entry_violates_invariant:
  "(case run [ReconcileBinding [] ''binding-1'' (Some (bindingTo [])),
              ReconcileBinding [] ''binding-1'' None]
             newPolicyController of
      Inl p \<Rightarrow> False
    | Inr (errs, c) \<Rightarrow> \<not> indexInvariant c)"
proof -
  let ?c = "newPolicyController
              \<lparr>definitionsToBindings := [getNamespaceName [] [] \<mapsto> [getNamespaceName [] ''binding-1'']]\<rparr>"
  have run: "run [ReconcileBinding [] ''binding-1'' (Some (bindingTo [])),
              ReconcileBinding [] ''binding-1'' None] newPolicyController = Inr ([None, None], ?c)"
    by (simp add: op_defs fixture_defs)
  have "definitionsToBindings ?c (getNamespaceName [] []) = Some [getNamespaceName [] ''binding-1'']"
    and "bindingInfos ?c (getNamespaceName [] ''binding-1'') = None"
    by (simp_all add: newPolicyController_def)
  then have "\<not> indexInvariant ?c"
    unfolding indexInvariant_def by fastforce
  with run show ?thesis by simp
qed

section \<open>The definition reconciler\<close>

text \<open>C4. The claim: a reconcile of a definition whose parameter kind has an apiVersion
  that the group-version parser rejects stores the new value with a configuration error and
  returns no error, so that the watch loop does not retry.

  The reset loop of lines 186--190 runs before the parameter kind is looked at, and it
  dereferences the record of every binding listed under the definition. After a binding with
  the empty policy name was reconciled and deleted (the defect of C2), the index lists a
  binding without a record under the definition with the empty name: the reconcile of that
  definition with an unparsable kind panics instead of returning.\<close>

theorem unparsable_param_kind_panics_on_stale_index_entry:
  "(case run [ReconcileBinding [] ''binding-1'' (Some (bindingTo [])),
              ReconcileBinding [] ''binding-1'' None]
             newPolicyController of
      Inl p \<Rightarrow> False
    | Inr (errs, c) \<Rightarrow>
        errs = [None, None] \<and>
        Spec_ParamKind (policyWith (Some malformedKind)) = Some malformedKind \<and>
        ParseGroupVersion (servicesStub []) (APIVersion malformedKind)
          = Inl (ServiceError ''unexpected GroupVersion string'') \<and>
        reconcilePolicyDefinition (servicesStub []) [] []
          (Some (policyWith (Some malformedKind))) c = Inl NilPointerDereference)"
  by (simp add: op_defs fixture_defs)

text \<open>On a state where every binding listed under the definition has a record, the
  reconcile does what C4 says: it returns no error, and the record of the definition holds
  the new value together with a configuration error.\<close>

theorem unparsable_param_kind_is_terminal:
  assumes "Spec_ParamKind d = Some pk"
    and "ParseGroupVersion sv (APIVersion pk) = Inl e"
    and "dependentsKnown c (getNamespaceName ns n)"
  shows "\<exists>c' effs.
           reconcilePolicyDefinition sv ns n (Some d) c = Inr (None, c', effs) \<and>
           map_of (definitionInfo c') (getNamespaceName ns n) =
             Some \<lparr>definitionInfo.lastReconciledValue = Some d,
                   configurationError = Some (FailedToParseApiVersion pk e)\<rparr>"
  using assms(1,2) resetValidators_known[OF assms(3)]
  by (simp add: reconcilePolicyDefinition_def updateDefinition_def Let_def update_conv'
        split: prod.splits)

theorem unparsable_param_kind_is_terminal_witness:
  "Spec_ParamKind (policyWith (Some malformedKind)) = Some malformedKind \<and>
   ParseGroupVersion (servicesStub []) (APIVersion malformedKind)
     = Inl (ServiceError ''unexpected GroupVersion string'') \<and>
   dependentsKnown newPolicyController (getNamespaceName [] ''policy-A'') \<and>
   (\<exists>c' effs.
      reconcilePolicyDefinition (servicesStub []) [] ''policy-A''
        (Some (policyWith (Some malformedKind))) newPolicyController = Inr (None, c', effs) \<and>
      map_of (definitionInfo c') (getNamespaceName [] ''policy-A'') =
        Some \<lparr>definitionInfo.lastReconciledValue = Some (policyWith (Some malformedKind)),
              configurationError =
                Some (FailedToParseApiVersion malformedKind
                        (ServiceError ''unexpected GroupVersion string''))\<rparr>)"
proof -
  have kind: "Spec_ParamKind (policyWith (Some malformedKind)) = Some malformedKind"
    by (simp add: policyWith_def)
  have parse: "ParseGroupVersion (servicesStub []) (APIVersion malformedKind)
     = Inl (ServiceError ''unexpected GroupVersion string'')"
    by (simp add: servicesStub_def parseStub_def malformedKind_def)
  have known: "dependentsKnown newPolicyController (getNamespaceName [] ''policy-A'')"
    by (simp add: dependentsKnown_def dependentsOf_def newPolicyController_def)
  from unparsable_param_kind_is_terminal[OF kind parse known] kind parse known show ?thesis by blast
qed

text \<open>Clearing validators removes no record.\<close>

lemma clearValidators_dom: "clearValidators keys bis k = None \<longleftrightarrow> bis k = None"
  by (simp add: clearValidators_def)

text \<open>C5. The claim: a reconcile of a definition whose parameter kind parses but cannot be
  resolved stores a configuration error and returns that same error; a later reconcile of
  the same identity that resolves clears the error and leaves exactly one entry for the
  kind.

  As for C4, the reset loop runs first: on the state the defect of C2 leaves behind, the
  reconcile of the definition with the empty name and an unresolvable kind panics instead of
  recording and returning the error.\<close>

theorem unresolved_param_kind_panics_on_stale_index_entry:
  "(case run [ReconcileBinding [] ''binding-1'' (Some (bindingTo [])),
              ReconcileBinding [] ''binding-1'' None]
             newPolicyController of
      Inl p \<Rightarrow> False
    | Inr (errs, c) \<Rightarrow>
        errs = [None, None] \<and>
        Spec_ParamKind (policyWith (Some configMapKind)) = Some configMapKind \<and>
        ParseGroupVersion (servicesStub []) (APIVersion configMapKind)
          = Inr \<lparr>Group = [], Version = ''v1''\<rparr> \<and>
        restMapper_RESTMapping (servicesStub []) \<lparr>gk_Group = [], gk_Kind = ''ConfigMap''\<rparr> ''v1''
          = Inl (ServiceError ''no matches for kind'') \<and>
        reconcilePolicyDefinition (servicesStub []) [] []
          (Some (policyWith (Some configMapKind))) c = Inl NilPointerDereference)"
  by (simp add: op_defs fixture_defs)

text \<open>On a state where every binding listed under the definition has a record, the
  reconciles do what C5 says. The first stores an error in the record and returns that same
  error, so the watch loop retries. A later reconcile of the same identity with the same
  kind that resolves returns no error, clears the configuration error and leaves one entry
  for the kind: the entry that was there, or a new one for which one informer and one
  controller are started.\<close>

theorem transient_resolution_error_then_recovery:
  assumes kind: "Spec_ParamKind d = Some pk"
    and parse: "ParseGroupVersion sv (APIVersion pk) = Inr gv"
    and unresolved:
      "restMapper_RESTMapping sv \<lparr>gk_Group = Group gv, gk_Kind = Kind pk\<rparr> (Version gv) = Inl e"
    and known: "dependentsKnown c (getNamespaceName ns n)"
    and kind': "Spec_ParamKind d' = Some pk"
    and parse': "ParseGroupVersion sv' (APIVersion pk) = Inr gv'"
    and resolved:
      "restMapper_RESTMapping sv' \<lparr>gk_Group = Group gv', gk_Kind = Kind pk\<rparr> (Version gv') = Inr m"
  shows "\<exists>c1 effs1 c2 effs2.
           reconcilePolicyDefinition sv ns n (Some d) c =
             Inr (Some (FailedToFindResource
                    \<lparr>gvk_Group = Group gv, gvk_Version = Version gv, gvk_Kind = Kind pk\<rparr>),
                  c1, effs1) \<and>
           map_of (definitionInfo c1) (getNamespaceName ns n) =
             Some \<lparr>definitionInfo.lastReconciledValue = Some d,
                   configurationError = Some (FailedToFindResource
                    \<lparr>gvk_Group = Group gv, gvk_Version = Version gv, gvk_Kind = Kind pk\<rparr>)\<rparr> \<and>
           reconcilePolicyDefinition sv' ns n (Some d') c1 = Inr (None, c2, effs2) \<and>
           map_of (definitionInfo c2) (getNamespaceName ns n) =
             Some \<lparr>definitionInfo.lastReconciledValue = Some d', configurationError = None\<rparr> \<and>
           paramsCRDControllers c2 pk =
             Some (case paramsCRDControllers c1 pk of
                     Some pinfo \<Rightarrow> pinfo
                   | None \<Rightarrow> \<lparr>controller = ParamsController pk (Resource m),
                              stop = CancelInstanceContext pk,
                              dependentDefinitions = {getNamespaceName ns n}\<rparr>) \<and>
           effs2 = (case paramsCRDControllers c1 pk of
                      Some pinfo \<Rightarrow> []
                    | None \<Rightarrow> [RunInformer pk (Resource m),
                               RunController (ParamsController pk (Resource m))])"
proof -
  let ?nn = "getNamespaceName ns n"
  let ?e = "FailedToFindResource
              \<lparr>gvk_Group = Group gv, gvk_Version = Version gv, gvk_Kind = Kind pk\<rparr>"
  have "\<exists>c1 effs1.
      reconcilePolicyDefinition sv ns n (Some d) c = Inr (Some ?e, c1, effs1) \<and>
      map_of (definitionInfo c1) ?nn =
        Some \<lparr>definitionInfo.lastReconciledValue = Some d, configurationError = Some ?e\<rparr> \<and>
      definitionsToBindings c1 = definitionsToBindings c \<and>
      bindingInfos c1 =
        clearValidators (dependentsOf (definitionsToBindings c) ?nn) (bindingInfos c)"
    using kind parse unresolved resetValidators_known[OF known]
    by (simp add: reconcilePolicyDefinition_def updateDefinition_def Let_def update_conv'
          split: prod.splits)
  then obtain c1 effs1 where
    first: "reconcilePolicyDefinition sv ns n (Some d) c = Inr (Some ?e, c1, effs1)"
    and rec1: "map_of (definitionInfo c1) ?nn =
                 Some \<lparr>definitionInfo.lastReconciledValue = Some d, configurationError = Some ?e\<rparr>"
    and idx1: "definitionsToBindings c1 = definitionsToBindings c"
    and bis1: "bindingInfos c1 =
                 clearValidators (dependentsOf (definitionsToBindings c) ?nn) (bindingInfos c)"
    by blast
  have known1: "dependentsKnown c1 ?nn"
    using known by (simp add: dependentsKnown_def idx1 bis1 clearValidators_dom)
  have same_kind: "removeOldDependency ?nn
      \<lparr>definitionInfo.lastReconciledValue = Some d, configurationError = Some ?e\<rparr> (Some pk)
      (paramsCRDControllers c1) = (paramsCRDControllers c1, [])"
    using kind by (simp add: removeOldDependency_def)
  have second: "\<exists>c2 effs2.
      reconcilePolicyDefinition sv' ns n (Some d') c1 = Inr (None, c2, effs2) \<and>
      map_of (definitionInfo c2) ?nn =
        Some \<lparr>definitionInfo.lastReconciledValue = Some d', configurationError = None\<rparr> \<and>
      paramsCRDControllers c2 pk =
        Some (case paramsCRDControllers c1 pk of
                Some pinfo \<Rightarrow> pinfo
              | None \<Rightarrow> \<lparr>controller = ParamsController pk (Resource m),
                         stop = CancelInstanceContext pk,
                         dependentDefinitions = {?nn}\<rparr>) \<and>
      effs2 = (case paramsCRDControllers c1 pk of
                 Some pinfo \<Rightarrow> []
               | None \<Rightarrow> [RunInformer pk (Resource m),
                          RunController (ParamsController pk (Resource m))])"
    using kind' parse' resolved rec1 same_kind resetValidators_known[OF known1]
    by (cases "paramsCRDControllers c1 pk")
       (simp_all add: reconcilePolicyDefinition_def updateDefinition_def fetchDefinitionInfo_def
          startParamController_def Let_def update_conv' split: prod.splits)
  with first rec1 show ?thesis by blast
qed

theorem transient_resolution_error_then_recovery_witness:
  "Spec_ParamKind (policyWith (Some configMapKind)) = Some configMapKind \<and>
   ParseGroupVersion (servicesStub []) (APIVersion configMapKind)
     = Inr \<lparr>Group = [], Version = ''v1''\<rparr> \<and>
   restMapper_RESTMapping (servicesStub []) \<lparr>gk_Group = [], gk_Kind = ''ConfigMap''\<rparr> ''v1''
     = Inl (ServiceError ''no matches for kind'') \<and>
   restMapper_RESTMapping (servicesStub [''ConfigMap''])
       \<lparr>gk_Group = [], gk_Kind = ''ConfigMap''\<rparr> ''v1''
     = Inr \<lparr>Resource = GroupVersionResource [] ''v1'' ''ConfigMap''\<rparr> \<and>
   dependentsKnown newPolicyController (getNamespaceName [] ''policy-A'') \<and>
   (\<exists>c1 effs1 c2 effs2.
      reconcilePolicyDefinition (servicesStub []) [] ''policy-A''
          (Some (policyWith (Some configMapKind))) newPolicyController =
        Inr (Some (FailedToFindResource
               \<lparr>gvk_Group = [], gvk_Version = ''v1'', gvk_Kind = ''ConfigMap''\<rparr>),
             c1, effs1) \<and>
      map_option configurationError (map_of (definitionInfo c1) (getNamespaceName [] ''policy-A''))
        = Some (Some (FailedToFindResource
               \<lparr>gvk_Group = [], gvk_Version = ''v1'', gvk_Kind = ''ConfigMap''\<rparr>)) \<and>
      reconcilePolicyDefinition (servicesStub [''ConfigMap'']) [] ''policy-A''
          (Some (policyWith (Some configMapKind))) c1 = Inr (None, c2, effs2) \<and>
      map_option configurationError (map_of (definitionInfo c2) (getNamespaceName [] ''policy-A''))
        = Some None \<and>
      paramsCRDControllers c2 configMapKind =
        Some \<lparr>controller = configMapController,
              stop = CancelInstanceContext configMapKind,
              dependentDefinitions = {getNamespaceName [] ''policy-A''}\<rparr> \<and>
      effs2 = [RunInformer configMapKind (GroupVersionResource [] ''v1'' ''ConfigMap''),
               RunController configMapController])"
proof -
  let ?d = "policyWith (Some configMapKind)"
  have kind: "Spec_ParamKind ?d = Some configMapKind"
    by (simp add: policyWith_def)
  have parse: "ParseGroupVersion (servicesStub regs) (APIVersion configMapKind)
     = Inr \<lparr>Group = [], Version = ''v1''\<rparr>" for regs
    by (simp add: servicesStub_def parseStub_def configMapKind_def)
  have unresolved: "restMapper_RESTMapping (servicesStub [])
      \<lparr>gk_Group = Group \<lparr>Group = [], Version = ''v1''\<rparr>, gk_Kind = Kind configMapKind\<rparr>
      (Version \<lparr>Group = [], Version = ''v1''\<rparr>) = Inl (ServiceError ''no matches for kind'')"
    by (simp add: servicesStub_def mapperStub_def configMapKind_def)
  have resolved: "restMapper_RESTMapping (servicesStub [''ConfigMap''])
      \<lparr>gk_Group = Group \<lparr>Group = [], Version = ''v1''\<rparr>, gk_Kind = Kind configMapKind\<rparr>
      (Version \<lparr>Group = [], Version = ''v1''\<rparr>)
      = Inr \<lparr>Resource = GroupVersionResource [] ''v1'' ''ConfigMap''\<rparr>"
    by (simp add: servicesStub_def mapperStub_def configMapKind_def)
  have known: "dependentsKnown newPolicyController (getNamespaceName [] ''policy-A'')"
    by (simp add: dependentsKnown_def dependentsOf_def newPolicyController_def)
  from transient_resolution_error_then_recovery[OF kind parse unresolved known kind parse resolved]
  obtain c1 effs1 c2 effs2 where
    first: "reconcilePolicyDefinition (servicesStub []) [] ''policy-A'' (Some ?d) newPolicyController =
        Inr (Some (FailedToFindResource
               \<lparr>gvk_Group = [], gvk_Version = ''v1'', gvk_Kind = ''ConfigMap''\<rparr>), c1, effs1)"
    and rec1: "map_of (definitionInfo c1) (getNamespaceName [] ''policy-A'') =
        Some \<lparr>definitionInfo.lastReconciledValue = Some ?d,
              configurationError = Some (FailedToFindResource
               \<lparr>gvk_Group = [], gvk_Version = ''v1'', gvk_Kind = ''ConfigMap''\<rparr>)\<rparr>"
    and second: "reconcilePolicyDefinition (servicesStub [''ConfigMap'']) [] ''policy-A'' (Some ?d) c1
        = Inr (None, c2, effs2)"
    and rec2: "map_of (definitionInfo c2) (getNamespaceName [] ''policy-A'') =
        Some \<lparr>definitionInfo.lastReconciledValue = Some ?d, configurationError = None\<rparr>"
    and entry: "paramsCRDControllers c2 configMapKind =
        Some (case paramsCRDControllers c1 configMapKind of
                Some pinfo \<Rightarrow> pinfo
              | None \<Rightarrow> \<lparr>controller = ParamsController configMapKind
                                        (Resource \<lparr>Resource = GroupVersionResource [] ''v1'' ''ConfigMap''\<rparr>),
                         stop = CancelInstanceContext configMapKind,
                         dependentDefinitions = {getNamespaceName [] ''policy-A''}\<rparr>)"
    and effs: "effs2 = (case paramsCRDControllers c1 configMapKind of
                 Some pinfo \<Rightarrow> []
               | None \<Rightarrow> [RunInformer configMapKind
                            (Resource \<lparr>Resource = GroupVersionResource [] ''v1'' ''ConfigMap''\<rparr>),
                          RunController (ParamsController configMapKind
                            (Resource \<lparr>Resource = GroupVersionResource [] ''v1'' ''ConfigMap''\<rparr>))])"
    by (auto simp: configMapKind_def)
  have none1: "paramsCRDControllers c1 configMapKind = None"
    using first by (auto simp: op_defs fixture_defs)
  show ?thesis
    using kind parse[of "[]"] unresolved resolved known first rec1 second rec2 entry effs none1
    by (auto simp: configMapController_def configMapKind_def)
qed

section \<open>The binding reconciler\<close>

text \<open>C7. A binding whose record holds a value for the definition A, reconciled with a value
  for another definition D: the binding leaves the set of A (and the key of A is deleted
  when the set is left empty), it is a member of the set of D (created when absent), and
  its record holds the new value and no validator.\<close>

theorem retargeted_binding_moves_in_index:
  assumes known: "bindingInfos c (getNamespaceName ns n) = Some info"
    and previous: "lastReconciledValue info = Some old"
    and moved: "Spec_PolicyName old \<noteq> Spec_PolicyName b"
  shows "\<exists>c'. reconcilePolicyBinding ns n (Some b) c = (None, c') \<and>
           definitionsToBindings c' (getNamespaceName [] (Spec_PolicyName old)) =
             (case definitionsToBindings c (getNamespaceName [] (Spec_PolicyName old)) of
                None \<Rightarrow> None
              | Some s \<Rightarrow>
                  if removeAll (getNamespaceName ns n) s = [] then None
                  else Some (removeAll (getNamespaceName ns n) s)) \<and>
           getNamespaceName ns n \<notin>
             set (dependentsOf (definitionsToBindings c') (getNamespaceName [] (Spec_PolicyName old))) \<and>
           definitionsToBindings c' (getNamespaceName [] (Spec_PolicyName b)) =
             Some (case definitionsToBindings c (getNamespaceName [] (Spec_PolicyName b)) of
                     None \<Rightarrow> [getNamespaceName ns n]
                   | Some s \<Rightarrow> List.insert (getNamespaceName ns n) s) \<and>
           getNamespaceName ns n \<in>
             set (dependentsOf (definitionsToBindings c') (getNamespaceName [] (Spec_PolicyName b))) \<and>
           bindingInfos c' (getNamespaceName ns n) =
             Some \<lparr>validator = None, lastReconciledValue = Some b\<rparr>"
  using assms
  by (auto simp: reconcilePolicyBinding_def fetchBindingInfo_def removeFromOldDefinition_def
        addToNewDefinition_def dependentsOf_def getNamespaceName_def Let_def
        split: option.splits)

theorem retargeted_binding_moves_in_index_witness:
  "bindingInfos compiledState (getNamespaceName [] ''binding-1'') =
     Some \<lparr>validator = Some (Validator ''compiled''),
           lastReconciledValue = Some (bindingTo ''policy-A'')\<rparr> \<and>
   Spec_PolicyName (bindingTo ''policy-A'') \<noteq> Spec_PolicyName (bindingTo ''policy-B'') \<and>
   (\<exists>c'. reconcilePolicyBinding [] ''binding-1'' (Some (bindingTo ''policy-B'')) compiledState
           = (None, c') \<and>
         definitionsToBindings c' (getNamespaceName [] ''policy-A'') = None \<and>
         definitionsToBindings c' (getNamespaceName [] ''policy-B'') =
           Some [getNamespaceName [] ''binding-1''] \<and>
         bindingInfos c' (getNamespaceName [] ''binding-1'') =
           Some \<lparr>validator = None, lastReconciledValue = Some (bindingTo ''policy-B'')\<rparr>)"
proof -
  let ?info = "\<lparr>validator = Some (Validator ''compiled''),
                lastReconciledValue = Some (bindingTo ''policy-A'')\<rparr>"
  have known: "bindingInfos compiledState (getNamespaceName [] ''binding-1'') = Some ?info"
    by (simp add: compiledState_def getNamespaceName_def)
  have previous: "lastReconciledValue ?info = Some (bindingTo ''policy-A'')"
    by simp
  have moved: "Spec_PolicyName (bindingTo ''policy-A'') \<noteq> Spec_PolicyName (bindingTo ''policy-B'')"
    by (simp add: bindingTo_def)
  have idxA: "definitionsToBindings compiledState (getNamespaceName [] ''policy-A'') =
      Some [getNamespaceName [] ''binding-1'']"
    and idxB: "definitionsToBindings compiledState (getNamespaceName [] ''policy-B'') = None"
    by (simp_all add: compiledState_def getNamespaceName_def)
  from retargeted_binding_moves_in_index[OF known previous moved] known moved idxA idxB
  show ?thesis by (auto simp: bindingTo_def)
qed

section \<open>The policy data cache\<close>

subsection \<open>Visiting the bindings of a definition\<close>

text \<open>The visit of a definition's bindings panics exactly when a listed binding has no
  record. When it returns, it yields one copy per listed binding and changes no value last
  reconciled.\<close>

lemma visitBinding_value [simp]:
  "lastReconciledValue (visitBinding sv info b) = lastReconciledValue b"
  by (simp add: visitBinding_def)

lemma known_update:
  "bis key = Some b \<Longrightarrow>
   list_all (\<lambda>k. (bis(key \<mapsto> b')) k \<noteq> None) keys = list_all (\<lambda>k. bis k \<noteq> None) keys"
  by (induction keys) auto

lemma collectBindings_panics:
  "\<not> list_all (\<lambda>k. bis k \<noteq> None) keys \<Longrightarrow>
   collectBindings sv definitionNN info keys bis = Inl NilPointerDereference"
proof (induction keys arbitrary: bis)
  case Nil
  then show ?case by simp
next
  case (Cons key keys)
  show ?case
  proof (cases "bis key")
    case None
    then show ?thesis by simp
  next
    case (Some b)
    have rest: "\<not> list_all (\<lambda>k. (bis(key \<mapsto> b')) k \<noteq> None) keys" for b'
      unfolding known_update[of bis key b, OF Some] using Cons.prems Some by simp
    have rest': "\<not> list_all (\<lambda>k. bis k \<noteq> None) keys"
      using Cons.prems Some by (auto simp: list_all_iff)
    note ih = Cons.IH[OF rest] Cons.IH[OF rest']
    show ?thesis
      using Some by (simp add: Let_def ih)
  qed
qed

lemma collectBindings_returns:
  "list_all (\<lambda>k. bis k \<noteq> None) keys \<Longrightarrow>
   \<exists>out calls bis'.
     collectBindings sv definitionNN info keys bis = Inr (out, calls, bis') \<and>
     length out = length keys \<and>
     map lastReconciledValue out = map (\<lambda>k. lastReconciledValue (the (bis k))) keys \<and>
     (\<forall>k. map_option lastReconciledValue (bis' k) = map_option lastReconciledValue (bis k))"
proof (induction keys arbitrary: bis)
  case Nil
  then show ?case by simp
next
  case (Cons key keys)
  from Cons.prems obtain b where b: "bis key = Some b" by auto
  let ?b = "visitBinding sv info b"
  let ?bis = "bis(key \<mapsto> ?b)"
  have same: "map_option lastReconciledValue (?bis k) = map_option lastReconciledValue (bis k)" for k
    using b by simp
  have known: "list_all (\<lambda>k. ?bis k \<noteq> None) keys"
    unfolding known_update[of bis key b, OF b] using Cons.prems by simp
  from Cons.IH[OF known] obtain out calls bis' where
    rest: "collectBindings sv definitionNN info keys ?bis = Inr (out, calls, bis')"
    and len: "length out = length keys"
    and vals: "map lastReconciledValue out = map (\<lambda>k. lastReconciledValue (the (?bis k))) keys"
    and pres: "\<forall>k. map_option lastReconciledValue (bis' k) = map_option lastReconciledValue (?bis k)"
    by blast
  have vals': "map (\<lambda>k. lastReconciledValue (the (?bis k))) keys
             = map (\<lambda>k. lastReconciledValue (the (bis k))) keys"
    using b by (auto simp: list_all_iff)
  have step: "collectBindings sv definitionNN info (key # keys) bis =
      Inr (?b # out,
           (if validator b = None \<and> configurationError info = None
            then [(definitionNN, key)] else []) @ calls, bis')"
  proof (cases "validator b = None \<and> configurationError info = None")
    case True
    then have "?b = b\<lparr>validator :=
                 ValidatorCompiler_Compile sv (definitionInfo.lastReconciledValue info)\<rparr>"
      by (simp add: visitBinding_def)
    with True b rest show ?thesis by (simp add: Let_def)
  next
    case False
    then have eq: "?b = b" by (auto simp: visitBinding_def)
    have "?bis = bis" using b eq by (auto simp: fun_eq_iff)
    with False b rest eq show ?thesis by auto
  qed
  show ?case
    using step len vals vals' pres same b by (auto simp del: collectBindings.simps)
qed

lemma collectBindings_length:
  "collectBindings sv definitionNN info keys bis = Inr (out, calls, bis') \<Longrightarrow>
   length out = length keys"
proof -
  assume ret: "collectBindings sv definitionNN info keys bis = Inr (out, calls, bis')"
  have "list_all (\<lambda>k. bis k \<noteq> None) keys"
    using collectBindings_panics[of bis keys sv definitionNN info] ret by auto
  from collectBindings_returns[OF this, of sv definitionNN info] ret show ?thesis by auto
qed

subsection \<open>Rebuilding the list\<close>

text \<open>The rebuild returns on a state whose definition records hold values and whose
  listed bindings have records. Its result has one entry per definition record, in order,
  and each entry lists the definition's bindings.\<close>

lemma bindingsKnown_same:
  "(\<And>k. bis' k = None \<longleftrightarrow> bis k = None) \<Longrightarrow>
   bindingsKnown idx bis' defs = bindingsKnown idx bis defs"
  by (simp add: bindingsKnown_def)

lemma findParamController_returns:
  "definitionInfo.lastReconciledValue info \<noteq> None \<Longrightarrow>
   \<exists>pc. findParamController ctrls info = Inr pc"
  by (auto simp: findParamController_def split: option.splits)

lemma rebuildPolicies_returns:
  "bindingsKnown idx bis defs \<Longrightarrow>
   \<exists>res calls bis'.
     rebuildPolicies sv ctrls idx defs bis = Inr (res, calls, bis') \<and>
     list_all2 (\<lambda>(definitionNN, info) pd.
        policyData.definitionInfo pd = info \<and>
        map lastReconciledValue (bindings pd) =
          map (\<lambda>k. lastReconciledValue (the (bis k))) (dependentsOf idx definitionNN)) defs res \<and>
     (\<forall>k. map_option lastReconciledValue (bis' k) = map_option lastReconciledValue (bis k))"
proof (induction defs arbitrary: bis)
  case Nil
  then show ?case by simp
next
  case (Cons entry defs)
  obtain definitionNN info where entry: "entry = (definitionNN, info)" by (cases entry)
  from Cons.prems entry have val: "definitionInfo.lastReconciledValue info \<noteq> None"
    and known: "list_all (\<lambda>k. bis k \<noteq> None) (dependentsOf idx definitionNN)"
    and rest: "bindingsKnown idx bis defs"
    by (simp_all add: bindingsKnown_def)
  from collectBindings_returns[OF known, of sv definitionNN info]
  obtain out calls1 bis1 where
    visit: "collectBindings sv definitionNN info (dependentsOf idx definitionNN) bis
              = Inr (out, calls1, bis1)"
    and vals: "map lastReconciledValue out =
                 map (\<lambda>k. lastReconciledValue (the (bis k))) (dependentsOf idx definitionNN)"
    and pres1: "\<forall>k. map_option lastReconciledValue (bis1 k) = map_option lastReconciledValue (bis k)"
    by blast
  have dom1: "bis1 k = None \<longleftrightarrow> bis k = None" for k
    using pres1[rule_format, of k] by (cases "bis1 k"; cases "bis k") auto
  have the1: "lastReconciledValue (the (bis1 k)) = lastReconciledValue (the (bis k))" for k
    using pres1[rule_format, of k] by (cases "bis1 k"; cases "bis k") auto
  from findParamController_returns[OF val] obtain pc where
    pc: "findParamController ctrls info = Inr pc" by blast
  have "bindingsKnown idx bis1 defs"
    using rest bindingsKnown_same[of bis1 bis idx defs] dom1 by simp
  from Cons.IH[OF this] obtain res calls2 bis2 where
    tail: "rebuildPolicies sv ctrls idx defs bis1 = Inr (res, calls2, bis2)"
    and entries: "list_all2 (\<lambda>(definitionNN, info) pd.
        policyData.definitionInfo pd = info \<and>
        map lastReconciledValue (bindings pd) =
          map (\<lambda>k. lastReconciledValue (the (bis1 k))) (dependentsOf idx definitionNN)) defs res"
    and pres2: "\<forall>k. map_option lastReconciledValue (bis2 k) = map_option lastReconciledValue (bis1 k)"
    by blast
  have step: "rebuildPolicies sv ctrls idx (entry # defs) bis =
      Inr (\<lparr>policyData.definitionInfo = info, paramController = pc, bindings = out\<rparr> # res,
           calls1 @ calls2, bis2)"
    using entry visit pc tail by simp
  show ?case
    using step entry vals entries pres1 pres2 by (simp add: the1)
qed

lemma rebuildPolicies_length:
  "rebuildPolicies sv ctrls idx defs bis = Inr (res, calls, bis') \<Longrightarrow> length res = length defs"
  by (induction defs arbitrary: bis res calls bis')
     (auto split: sum.splits prod.splits)

lemma bindingsKnown_delete:
  "bindingsKnown idx bis defs \<Longrightarrow> bindingsKnown idx bis (AList.delete nn defs)"
  by (auto simp: bindingsKnown_def AList.delete_eq list_all_iff)

lemma bindingsKnown_clear:
  "bindingsKnown idx (clearValidators keys bis) defs = bindingsKnown idx bis defs"
  by (rule bindingsKnown_same) (simp add: clearValidators_dom)

lemma bindingsKnown_member:
  "bindingsKnown idx bis defs \<Longrightarrow> map_of defs nn = Some info \<Longrightarrow>
   list_all (\<lambda>k. bis k \<noteq> None) (dependentsOf idx nn)"
  by (auto simp: bindingsKnown_def list_all_iff dest!: map_of_SomeD)

lemma entries_definitionInfo:
  "list_all2 (\<lambda>(definitionNN, info) pd. policyData.definitionInfo pd = info \<and> Q definitionNN info pd)
     defs res \<Longrightarrow>
   map policyData.definitionInfo res = map snd defs"
  by (induction defs res rule: list_all2_induct) auto

lemma latestPolicyData_rebuilds:
  assumes "cachedPolicies c = []" and "snapshotComputable c"
  shows "\<exists>res calls c'.
     latestPolicyData sv c = Inr (res, calls, c') \<and>
     list_all2 (\<lambda>(definitionNN, info) pd.
        policyData.definitionInfo pd = info \<and>
        map lastReconciledValue (bindings pd) =
          map (\<lambda>k. lastReconciledValue (the (bindingInfos c k)))
            (dependentsOf (definitionsToBindings c) definitionNN)) (definitionInfo c) res"
  using assms
    rebuildPolicies_returns[of "definitionsToBindings c" "bindingInfos c" "definitionInfo c"
      sv "paramsCRDControllers c"]
  by (auto simp: latestPolicyData_def snapshotComputable_def)

lemma clearValidators_value:
  "lastReconciledValue (the (clearValidators keys bis k)) = lastReconciledValue (the (bis k))"
  by (cases "bis k") (simp_all add: clearValidators_def)

lemma snapshotEntryOf_cong:
  "definitionsToBindings c' = definitionsToBindings c \<Longrightarrow>
   (\<And>k. lastReconciledValue (the (bindingInfos c' k)) = lastReconciledValue (the (bindingInfos c k))) \<Longrightarrow>
   snapshotEntryOf c' = snapshotEntryOf c"
  by (simp add: snapshotEntryOf_def)

lemma latestPolicyData_entries:
  assumes "cachedPolicies c = []" and "snapshotComputable c"
  shows "\<exists>res calls c'.
     latestPolicyData sv c = Inr (res, calls, c') \<and>
     list_all2 (snapshotEntryOf c) (definitionInfo c) res"
  using latestPolicyData_rebuilds[OF assms, of sv] by (simp add: snapshotEntryOf_def)

lemma bindingsKnown_snoc:
  "bindingsKnown idx bis (defs @ [(nn, info)]) \<longleftrightarrow>
   bindingsKnown idx bis defs \<and> definitionInfo.lastReconciledValue info \<noteq> None \<and>
   list_all (\<lambda>k. bis k \<noteq> None) (dependentsOf idx nn)"
  by (simp add: bindingsKnown_def)

lemma latestPolicyData_cached:
  "cachedPolicies c \<noteq> [] \<Longrightarrow> latestPolicyData sv c = Inr (cachedPolicies c, [], c)"
  by (simp add: latestPolicyData_def)

text \<open>C6. Two reads with no reconcile between them: the second read returns the list the
  first one returned, calls the compiler for nothing and leaves the state as it is. (When
  the first read rebuilt an empty list, the cache holds nil and the second read rebuilds
  again, over no definition.)\<close>

theorem second_read_returns_cached_snapshot:
  assumes first: "latestPolicyData sv c = Inr (res, calls, c')"
  shows "latestPolicyData sv c' = Inr (res, [], c')"
proof (cases "cachedPolicies c = []")
  case False
  with first have "res = cachedPolicies c" and "c' = c"
    by (auto simp: latestPolicyData_def)
  with False show ?thesis by (simp add: latestPolicyData_def)
next
  case True
  with first obtain bis where
    rebuilt: "rebuildPolicies sv (paramsCRDControllers c) (definitionsToBindings c)
                (definitionInfo c) (bindingInfos c) = Inr (res, calls, bis)"
    and c': "c' = c\<lparr>bindingInfos := bis, cachedPolicies := res\<rparr>"
    by (auto simp: latestPolicyData_def split: sum.splits)
  show ?thesis
  proof (cases "res = []")
    case False
    with c' show ?thesis by (simp add: latestPolicyData_def)
  next
    case True
    with rebuildPolicies_length[OF rebuilt] have "definitionInfo c = []" by simp
    with True c' show ?thesis by (simp add: latestPolicyData_def)
  qed
qed

theorem second_read_returns_cached_snapshot_witness:
  "latestPolicyData (servicesStub [''ConfigMap'']) reconciledState =
     Inr (cachedPolicies compiledState,
          [(getNamespaceName [] ''policy-A'', getNamespaceName [] ''binding-1'')],
          compiledState) \<and>
   latestPolicyData (servicesStub [''ConfigMap'']) compiledState =
     Inr (cachedPolicies compiledState, [], compiledState)"
proof -
  have first: "latestPolicyData (servicesStub [''ConfigMap'']) reconciledState =
     Inr (cachedPolicies compiledState,
          [(getNamespaceName [] ''policy-A'', getNamespaceName [] ''binding-1'')],
          compiledState)"
    by (simp add: op_defs fixture_defs)
  from second_read_returns_cached_snapshot[OF first] first show ?thesis by simp
qed

section \<open>Deleting a definition\<close>

text \<open>The shape of the state a definition reconcile returns, when every binding listed
  under the definition has a record.\<close>

lemma delete_fetched:
  "fetchDefinitionInfo nn defs = (info, defs', effs) \<Longrightarrow> AList.delete nn defs' = AList.delete nn defs"
  by (auto simp: fetchDefinitionInfo_def AList.delete_eq split: option.splits)

lemma reconcile_delete_eq:
  assumes "dependentsKnown c (getNamespaceName ns n)"
  shows "reconcilePolicyDefinition sv ns n None c =
     Inr (None,
          c\<lparr>cachedPolicies := [],
            paramsCRDControllers :=
              fst (removeOldDependency (getNamespaceName ns n)
                     (fst (fetchDefinitionInfo (getNamespaceName ns n) (definitionInfo c))) None
                     (paramsCRDControllers c)),
            definitionInfo := AList.delete (getNamespaceName ns n) (definitionInfo c),
            bindingInfos := clearValidators
              (dependentsOf (definitionsToBindings c) (getNamespaceName ns n)) (bindingInfos c)\<rparr>,
          snd (snd (fetchDefinitionInfo (getNamespaceName ns n) (definitionInfo c))) @
          snd (removeOldDependency (getNamespaceName ns n)
                 (fst (fetchDefinitionInfo (getNamespaceName ns n) (definitionInfo c))) None
                 (paramsCRDControllers c)))"
  using resetValidators_known[OF assms]
  by (auto simp: reconcilePolicyDefinition_def Let_def split: prod.splits dest: delete_fetched)

lemma updateDefinition_value:
  "updateDefinition sv nn d info ctrls = (err, info', ctrls', effs) \<Longrightarrow>
   definitionInfo.lastReconciledValue info' = Some d"
  by (auto simp: updateDefinition_def Let_def split: option.splits sum.splits prod.splits)

lemma reconcile_update_shape:
  assumes "dependentsKnown c (getNamespaceName ns n)"
  shows "\<exists>err c' effs info'.
     reconcilePolicyDefinition sv ns n (Some d) c = Inr (err, c', effs) \<and>
     cachedPolicies c' = [] \<and>
     definitionsToBindings c' = definitionsToBindings c \<and>
     bindingInfos c' = clearValidators
       (dependentsOf (definitionsToBindings c) (getNamespaceName ns n)) (bindingInfos c) \<and>
     definitionInfo c' = AList.update (getNamespaceName ns n) info'
       (fst (snd (fetchDefinitionInfo (getNamespaceName ns n) (definitionInfo c)))) \<and>
     definitionInfo.lastReconciledValue info' = Some d"
  using resetValidators_known[OF assms]
  by (auto simp: reconcilePolicyDefinition_def Let_def split: prod.splits
           dest: updateDefinition_value)

lemma update_append_new:
  "k \<notin> fst ` set xs \<Longrightarrow> AList.update k v (xs @ [(k, w)]) = xs @ [(k, v)]"
  by (induction xs) auto

lemma fetch_deleted:
  "fetchDefinitionInfo nn (AList.delete nn defs) =
     (zeroDefinitionInfo, AList.delete nn defs @ [(nn, zeroDefinitionInfo)],
      [ObserveDefinition ''active'' ''deny''])"
  by (simp add: fetchDefinitionInfo_def delete_conv')

text \<open>C9. The claim: reconciling the deletion of a definition D that declared the parameter
  kind K removes D from the dependents of the entry of K (cancelling the loop and deleting
  the entry when the set becomes empty), removes the record of D, returns no error, and the
  next read returns no entry for D.

  The removal from the dependents (lines 166--182) is followed by the reset loop of lines
  186--190, before the record is deleted. For the definition with the empty name, after a
  binding with the empty policy name was reconciled and deleted (the defect of C2), the loop
  dereferences a record that does not exist: the deletion panics instead of returning.\<close>

theorem definition_deletion_panics_on_stale_index_entry:
  "(case run [ReconcileDefinition (servicesStub [''ConfigMap'']) [] []
                (Some (policyWith (Some configMapKind))),
              ReconcileBinding [] ''binding-1'' (Some (bindingTo [])),
              ReconcileBinding [] ''binding-1'' None]
             newPolicyController of
      Inl p \<Rightarrow> False
    | Inr (errs, c) \<Rightarrow>
        errs = [None, None, None] \<and>
        declaredKind c (getNamespaceName [] []) = Some configMapKind \<and>
        map_option dependentDefinitions (paramsCRDControllers c configMapKind)
          = Some {getNamespaceName [] []} \<and>
        reconcilePolicyDefinition (servicesStub [''ConfigMap'']) [] [] None c
          = Inl NilPointerDereference)"
  by (simp add: op_defs fixture_defs declaredKind_def)

text \<open>On a state where no nil pointer is dereferenced (every definition record holds a
  value and every binding listed under a definition record has a record), the deletion does
  what C9 says. It returns no error. The definition leaves the dependents of the entry of K;
  when no dependent is left the loop is cancelled and the entry deleted, otherwise nothing
  is cancelled. The record of the definition is removed, and the next read returns one
  entry per remaining definition record and none for the deleted one.\<close>

theorem definition_deletion_releases_watch_and_record:
  assumes declared: "map_of (definitionInfo c) (getNamespaceName ns n) = Some info"
    and val: "definitionInfo.lastReconciledValue info = Some old"
    and kind: "Spec_ParamKind old = Some K"
    and computable: "snapshotComputable c"
  shows "\<exists>c' effs.
     reconcilePolicyDefinition sv ns n None c = Inr (None, c', effs) \<and>
     (case paramsCRDControllers c K of
        None \<Rightarrow> paramsCRDControllers c' K = None \<and> effs = []
      | Some pinfo \<Rightarrow>
          if dependentDefinitions pinfo - {getNamespaceName ns n} = {}
          then paramsCRDControllers c' K = None \<and> effs = [Cancel (stop pinfo)]
          else paramsCRDControllers c' K =
                 Some (pinfo\<lparr>dependentDefinitions :=
                               dependentDefinitions pinfo - {getNamespaceName ns n}\<rparr>) \<and>
               effs = []) \<and>
     map_of (definitionInfo c') (getNamespaceName ns n) = None \<and>
     (\<exists>res calls c''.
        latestPolicyData sv' c' = Inr (res, calls, c'') \<and>
        map policyData.definitionInfo res =
          map snd (AList.delete (getNamespaceName ns n) (definitionInfo c)))"
proof -
  let ?nn = "getNamespaceName ns n"
  let ?keys = "dependentsOf (definitionsToBindings c) ?nn"
  let ?removed = "removeOldDependency ?nn info None (paramsCRDControllers c)"
  define c' where "c' = c\<lparr>cachedPolicies := [],
            paramsCRDControllers := fst ?removed,
            definitionInfo := AList.delete ?nn (definitionInfo c),
            bindingInfos := clearValidators ?keys (bindingInfos c)\<rparr>"
  have known: "dependentsKnown c ?nn"
    unfolding dependentsKnown_def
    using bindingsKnown_member[OF computable[unfolded snapshotComputable_def] declared] .
  have fetched: "fetchDefinitionInfo ?nn (definitionInfo c) = (info, definitionInfo c, [])"
    using declared by (simp add: fetchDefinitionInfo_def)
  have deleted: "reconcilePolicyDefinition sv ns n None c = Inr (None, c', snd ?removed)"
    using reconcile_delete_eq[OF known, of sv] fetched by (simp add: c'_def)
  have ctrl: "(case paramsCRDControllers c K of
        None \<Rightarrow> paramsCRDControllers c' K = None \<and> snd ?removed = []
      | Some pinfo \<Rightarrow>
          if dependentDefinitions pinfo - {?nn} = {}
          then paramsCRDControllers c' K = None \<and> snd ?removed = [Cancel (stop pinfo)]
          else paramsCRDControllers c' K =
                 Some (pinfo\<lparr>dependentDefinitions := dependentDefinitions pinfo - {?nn}\<rparr>) \<and>
               snd ?removed = [])"
    using val kind by (simp add: c'_def removeOldDependency_def Let_def split: option.splits)
  have gone: "map_of (definitionInfo c') ?nn = None"
    by (simp add: c'_def delete_conv')
  have "snapshotComputable c'"
    using computable
    by (simp add: snapshotComputable_def c'_def bindingsKnown_clear bindingsKnown_delete)
  moreover have "cachedPolicies c' = []" by (simp add: c'_def)
  ultimately obtain res calls c'' where
    read: "latestPolicyData sv' c' = Inr (res, calls, c'')"
    and entries: "list_all2 (\<lambda>(definitionNN, info) pd.
        policyData.definitionInfo pd = info \<and>
        map lastReconciledValue (bindings pd) =
          map (\<lambda>k. lastReconciledValue (the (bindingInfos c' k)))
            (dependentsOf (definitionsToBindings c') definitionNN)) (definitionInfo c') res"
    using latestPolicyData_rebuilds[of c' sv'] by blast
  have "map policyData.definitionInfo res = map snd (AList.delete ?nn (definitionInfo c))"
    using entries_definitionInfo[OF entries] by (simp add: c'_def)
  with deleted ctrl gone read show ?thesis by blast
qed

theorem definition_deletion_releases_watch_and_record_witness:
  "map_of (definitionInfo compiledState) (getNamespaceName [] ''policy-A'') =
     Some \<lparr>definitionInfo.lastReconciledValue = Some (policyWith (Some configMapKind)),
           configurationError = None\<rparr> \<and>
   Spec_ParamKind (policyWith (Some configMapKind)) = Some configMapKind \<and>
   snapshotComputable compiledState \<and>
   (\<exists>c' calls c''.
      reconcilePolicyDefinition (servicesStub [''ConfigMap'']) [] ''policy-A'' None compiledState
        = Inr (None, c', [Cancel (CancelInstanceContext configMapKind)]) \<and>
      paramsCRDControllers c' configMapKind = None \<and>
      map_of (definitionInfo c') (getNamespaceName [] ''policy-A'') = None \<and>
      latestPolicyData (servicesStub [''ConfigMap'']) c' = Inr ([], calls, c''))"
proof -
  let ?info = "\<lparr>definitionInfo.lastReconciledValue = Some (policyWith (Some configMapKind)),
                configurationError = None\<rparr>"
  have declared: "map_of (definitionInfo compiledState) (getNamespaceName [] ''policy-A'') = Some ?info"
    by (simp add: compiledState_def)
  have val: "definitionInfo.lastReconciledValue ?info = Some (policyWith (Some configMapKind))"
    by simp
  have kind: "Spec_ParamKind (policyWith (Some configMapKind)) = Some configMapKind"
    by (simp add: policyWith_def)
  have computable: "snapshotComputable compiledState"
    by (simp add: snapshotComputable_def bindingsKnown_def dependentsOf_def compiledState_def
          getNamespaceName_def)
  have entry: "paramsCRDControllers compiledState configMapKind =
      Some \<lparr>controller = configMapController, stop = CancelInstanceContext configMapKind,
            dependentDefinitions = {getNamespaceName [] ''policy-A''}\<rparr>"
    by (simp add: compiledState_def)
  have rest: "AList.delete (getNamespaceName [] ''policy-A'') (definitionInfo compiledState) = []"
    by (simp add: compiledState_def)
  from definition_deletion_releases_watch_and_record[OF declared val kind computable, of "servicesStub [''ConfigMap'']"
            "servicesStub [''ConfigMap'']"]
  show ?thesis
    using declared kind computable by (auto simp: entry rest)
qed

text \<open>C10. The claim: deleting a definition changes, besides the cache and the parameter
  watch entry, only the map of definition records; all binding records are unchanged.

  The reset loop of lines 186--190 runs before the test for a deletion, so the deletion
  clears the validator of every binding listed under the definition: a binding record with a
  compiled validator is changed.\<close>

theorem definition_deletion_clears_validators:
  "(case reconcilePolicyDefinition (servicesStub [''ConfigMap'']) [] ''policy-A'' None compiledState of
      Inl p \<Rightarrow> False
    | Inr (err, c', effs) \<Rightarrow>
        bindingInfos c' (getNamespaceName [] ''binding-1'') \<noteq>
        bindingInfos compiledState (getNamespaceName [] ''binding-1''))"
  by (simp add: op_defs fixture_defs)

text \<open>C10, amended. On a state where no nil pointer is dereferenced (every definition
  record holds a value, and every binding listed under a definition record or under D has a
  record), deleting a definition D returns no error, leaves the index as it is (the entry
  keyed by D survives), changes the binding records only by clearing the validators of the
  bindings listed under D, removes the record of D and no other definition record, and
  changes no watch entry but that of the kind D declared. The next read returns entries for
  the remaining definition records only, each with its own bindings. When D is reconciled
  again with a value, its record comes back, and the next read returns an entry for D that
  lists the bindings the index kept for it, with the values last reconciled for them.\<close>

theorem definition_deletion_frame:
  assumes computable: "snapshotComputable c"
    and known: "dependentsKnown c (getNamespaceName ns n)"
  shows "\<exists>c' effs.
     reconcilePolicyDefinition sv ns n None c = Inr (None, c', effs) \<and>
     definitionsToBindings c' = definitionsToBindings c \<and>
     bindingInfos c' =
       clearValidators (dependentsOf (definitionsToBindings c) (getNamespaceName ns n))
         (bindingInfos c) \<and>
     definitionInfo c' = AList.delete (getNamespaceName ns n) (definitionInfo c) \<and>
     (\<forall>k. declaredKind c (getNamespaceName ns n) \<noteq> Some k \<longrightarrow>
          paramsCRDControllers c' k = paramsCRDControllers c k) \<and>
     (\<exists>res calls c''.
        latestPolicyData sv' c' = Inr (res, calls, c'') \<and>
        list_all2 (snapshotEntryOf c) (AList.delete (getNamespaceName ns n) (definitionInfo c)) res) \<and>
     (\<forall>d sv1 sv2. \<exists>err c2 effs2 info2 res2 calls2 c3.
        reconcilePolicyDefinition sv1 ns n (Some d) c' = Inr (err, c2, effs2) \<and>
        definitionsToBindings c2 = definitionsToBindings c \<and>
        definitionInfo c2 =
          AList.delete (getNamespaceName ns n) (definitionInfo c) @ [(getNamespaceName ns n, info2)] \<and>
        definitionInfo.lastReconciledValue info2 = Some d \<and>
        latestPolicyData sv2 c2 = Inr (res2, calls2, c3) \<and>
        list_all2 (snapshotEntryOf c) (definitionInfo c2) res2)"
proof -
  let ?nn = "getNamespaceName ns n"
  let ?keys = "dependentsOf (definitionsToBindings c) ?nn"
  let ?info = "fst (fetchDefinitionInfo ?nn (definitionInfo c))"
  let ?removed = "removeOldDependency ?nn ?info None (paramsCRDControllers c)"
  let ?rest = "AList.delete ?nn (definitionInfo c)"
  define c' where "c' = c\<lparr>cachedPolicies := [],
            paramsCRDControllers := fst ?removed,
            definitionInfo := ?rest,
            bindingInfos := clearValidators ?keys (bindingInfos c)\<rparr>"
  have deleted: "\<exists>effs. reconcilePolicyDefinition sv ns n None c = Inr (None, c', effs)"
    using reconcile_delete_eq[OF known, of sv] by (simp add: c'_def)
  have idx: "definitionsToBindings c' = definitionsToBindings c"
    and bis: "bindingInfos c' = clearValidators ?keys (bindingInfos c)"
    and defs: "definitionInfo c' = ?rest"
    and cache: "cachedPolicies c' = []"
    by (simp_all add: c'_def)
  have frame: "\<forall>k. declaredKind c ?nn \<noteq> Some k \<longrightarrow>
                 paramsCRDControllers c' k = paramsCRDControllers c k"
    by (auto simp: c'_def declaredKind_def removeOldDependency_def fetchDefinitionInfo_def
          zeroDefinitionInfo_def Let_def split: option.splits)
  have entry_same: "snapshotEntryOf c' = snapshotEntryOf c"
    by (rule snapshotEntryOf_cong) (simp_all add: idx bis clearValidators_value)
  have computable': "snapshotComputable c'"
    using computable
    by (simp add: snapshotComputable_def c'_def bindingsKnown_clear bindingsKnown_delete)
  from latestPolicyData_entries[OF cache computable', of sv']
  have snapshot: "\<exists>res calls c''.
        latestPolicyData sv' c' = Inr (res, calls, c'') \<and> list_all2 (snapshotEntryOf c) ?rest res"
    by (simp add: entry_same defs)
  have known': "dependentsKnown c' ?nn"
    using known by (simp add: dependentsKnown_def idx bis clearValidators_dom)
  have recreate: "\<exists>err c2 effs2 info2 res2 calls2 c3.
        reconcilePolicyDefinition sv1 ns n (Some d) c' = Inr (err, c2, effs2) \<and>
        definitionsToBindings c2 = definitionsToBindings c \<and>
        definitionInfo c2 = ?rest @ [(?nn, info2)] \<and>
        definitionInfo.lastReconciledValue info2 = Some d \<and>
        latestPolicyData sv2 c2 = Inr (res2, calls2, c3) \<and>
        list_all2 (snapshotEntryOf c) (definitionInfo c2) res2" for d sv1 sv2
  proof -
    from reconcile_update_shape[OF known', of sv1 d]
    obtain err c2 effs2 info2 where
      again: "reconcilePolicyDefinition sv1 ns n (Some d) c' = Inr (err, c2, effs2)"
      and cache2: "cachedPolicies c2 = []"
      and idx2: "definitionsToBindings c2 = definitionsToBindings c'"
      and bis2: "bindingInfos c2 = clearValidators
                   (dependentsOf (definitionsToBindings c') ?nn) (bindingInfos c')"
      and defs2: "definitionInfo c2 = AList.update ?nn info2
                    (fst (snd (fetchDefinitionInfo ?nn (definitionInfo c'))))"
      and val2: "definitionInfo.lastReconciledValue info2 = Some d"
      by blast
    have defs2': "definitionInfo c2 = ?rest @ [(?nn, info2)]"
      using defs2 by (simp add: defs fetch_deleted update_append_new delete_notin_dom)
    have "bindingsKnown (definitionsToBindings c) (bindingInfos c) ?rest"
      using computable by (simp add: snapshotComputable_def bindingsKnown_delete)
    then have "bindingsKnown (definitionsToBindings c) (bindingInfos c) (?rest @ [(?nn, info2)])"
      unfolding bindingsKnown_snoc using known val2 by (simp add: dependentsKnown_def)
    then have computable2: "snapshotComputable c2"
      by (simp add: snapshotComputable_def defs2' idx2 idx bis2 bis bindingsKnown_clear)
    have entry2: "snapshotEntryOf c2 = snapshotEntryOf c"
      by (rule snapshotEntryOf_cong) (simp_all add: idx2 idx bis2 bis clearValidators_value)
    from latestPolicyData_entries[OF cache2 computable2, of sv2]
    obtain res2 calls2 c3 where
      read2: "latestPolicyData sv2 c2 = Inr (res2, calls2, c3)"
      and entries2: "list_all2 (snapshotEntryOf c) (definitionInfo c2) res2"
      by (auto simp: entry2)
    have idx2c: "definitionsToBindings c2 = definitionsToBindings c"
      using idx2 idx by simp
    show ?thesis
    proof (intro exI conjI)
      show "reconcilePolicyDefinition sv1 ns n (Some d) c' = Inr (err, c2, effs2)" by fact
      show "definitionsToBindings c2 = definitionsToBindings c" by fact
      show "definitionInfo c2 = ?rest @ [(?nn, info2)]" by fact
      show "definitionInfo.lastReconciledValue info2 = Some d" by fact
      show "latestPolicyData sv2 c2 = Inr (res2, calls2, c3)" by fact
      show "list_all2 (snapshotEntryOf c) (definitionInfo c2) res2" by fact
    qed
  qed
  from deleted idx bis defs frame snapshot recreate show ?thesis by blast
qed

theorem definition_deletion_frame_witness:
  "snapshotComputable compiledState \<and>
   dependentsKnown compiledState (getNamespaceName [] ''policy-A'') \<and>
   (\<exists>c' effs.
      reconcilePolicyDefinition (servicesStub [''ConfigMap'']) [] ''policy-A'' None compiledState
        = Inr (None, c', effs) \<and>
      definitionsToBindings c' (getNamespaceName [] ''policy-A'') =
        Some [getNamespaceName [] ''binding-1''] \<and>
      bindingInfos c' (getNamespaceName [] ''binding-1'') =
        Some \<lparr>validator = None, lastReconciledValue = Some (bindingTo ''policy-A'')\<rparr> \<and>
      definitionInfo c' = [] \<and>
      (\<exists>calls c''. latestPolicyData (servicesStub [''ConfigMap'']) c' = Inr ([], calls, c'')) \<and>
      (\<exists>err c2 effs2 pd calls2 c3.
         reconcilePolicyDefinition (servicesStub [''ConfigMap'']) [] ''policy-A''
           (Some (policyWith None)) c' = Inr (err, c2, effs2) \<and>
         latestPolicyData (servicesStub [''ConfigMap'']) c2 = Inr ([pd], calls2, c3) \<and>
         map lastReconciledValue (bindings pd) = [Some (bindingTo ''policy-A'')]))"
proof -
  let ?sv = "servicesStub [''ConfigMap'']"
  let ?A = "getNamespaceName [] ''policy-A''"
  let ?b = "getNamespaceName [] ''binding-1''"
  have computable: "snapshotComputable compiledState"
    by (simp add: snapshotComputable_def bindingsKnown_def dependentsOf_def compiledState_def
          getNamespaceName_def)
  have known: "dependentsKnown compiledState ?A"
    by (simp add: dependentsKnown_def dependentsOf_def compiledState_def getNamespaceName_def)
  have rest: "AList.delete ?A (definitionInfo compiledState) = []"
    by (simp add: compiledState_def)
  have idxA: "definitionsToBindings compiledState ?A = Some [?b]"
    by (simp add: compiledState_def getNamespaceName_def)
  have cleared: "clearValidators (dependentsOf (definitionsToBindings compiledState) ?A)
                   (bindingInfos compiledState) ?b =
      Some \<lparr>validator = None, lastReconciledValue = Some (bindingTo ''policy-A'')\<rparr>"
    by (simp add: clearValidators_def dependentsOf_def compiledState_def getNamespaceName_def)
  have entry: "snapshotEntryOf compiledState (?A, info) pd \<Longrightarrow>
      map lastReconciledValue (bindings pd) = [Some (bindingTo ''policy-A'')]" for info pd
    by (simp add: snapshotEntryOf_def dependentsOf_def compiledState_def getNamespaceName_def)
  from definition_deletion_frame[OF computable known, of ?sv ?sv]
  obtain c' effs where
    deleted: "reconcilePolicyDefinition ?sv [] ''policy-A'' None compiledState = Inr (None, c', effs)"
    and idx: "definitionsToBindings c' = definitionsToBindings compiledState"
    and bis: "bindingInfos c' =
       clearValidators (dependentsOf (definitionsToBindings compiledState) ?A)
         (bindingInfos compiledState)"
    and defs: "definitionInfo c' = AList.delete ?A (definitionInfo compiledState)"
    and snapshot: "\<exists>res calls c''.
        latestPolicyData ?sv c' = Inr (res, calls, c'') \<and>
        list_all2 (snapshotEntryOf compiledState)
          (AList.delete ?A (definitionInfo compiledState)) res"
    and recreate: "\<forall>d sv1 sv2. \<exists>err c2 effs2 info2 res2 calls2 c3.
        reconcilePolicyDefinition sv1 [] ''policy-A'' (Some d) c' = Inr (err, c2, effs2) \<and>
        definitionsToBindings c2 = definitionsToBindings compiledState \<and>
        definitionInfo c2 = AList.delete ?A (definitionInfo compiledState) @ [(?A, info2)] \<and>
        definitionInfo.lastReconciledValue info2 = Some d \<and>
        latestPolicyData sv2 c2 = Inr (res2, calls2, c3) \<and>
        list_all2 (snapshotEntryOf compiledState) (definitionInfo c2) res2"
    by blast
  from snapshot have empty: "\<exists>calls c''. latestPolicyData ?sv c' = Inr ([], calls, c'')"
    by (auto simp: rest)
  from recreate[rule_format, of ?sv "policyWith None" ?sv]
  obtain err c2 effs2 info2 res2 calls2 c3 where
    again: "reconcilePolicyDefinition ?sv [] ''policy-A'' (Some (policyWith None)) c'
              = Inr (err, c2, effs2)"
    and defs2: "definitionInfo c2 = AList.delete ?A (definitionInfo compiledState) @ [(?A, info2)]"
    and read2: "latestPolicyData ?sv c2 = Inr (res2, calls2, c3)"
    and entries2: "list_all2 (snapshotEntryOf compiledState) (definitionInfo c2) res2"
    by blast
  from entries2 obtain pd where res2: "res2 = [pd]"
    and pd: "snapshotEntryOf compiledState (?A, info2) pd"
    by (auto simp: defs2 rest list_all2_Cons1)
  have reattached: "\<exists>err c2 effs2 pd calls2 c3.
         reconcilePolicyDefinition ?sv [] ''policy-A'' (Some (policyWith None)) c'
           = Inr (err, c2, effs2) \<and>
         latestPolicyData ?sv c2 = Inr ([pd], calls2, c3) \<and>
         map lastReconciledValue (bindings pd) = [Some (bindingTo ''policy-A'')]"
    using again read2[unfolded res2] entry[OF pd] by (intro exI conjI)
  show ?thesis
    using computable known deleted idx idxA bis cleared defs rest empty reattached
    by auto
qed

section \<open>Compilation during a rebuild\<close>

text \<open>When the listed bindings are pairwise distinct, the visit of a definition's bindings
  is a map over the list: every binding is visited in the state the rebuild started from.\<close>

lemma collectBindings_once:
  assumes "distinct keys" and "list_all (\<lambda>k. bis k \<noteq> None) keys"
  shows "collectBindings sv definitionNN info keys bis =
     Inr (map (\<lambda>k. visitBinding sv info (the (bis k))) keys,
          map (Pair definitionNN)
            (filter (\<lambda>k. validator (the (bis k)) = None \<and> configurationError info = None) keys),
          (\<lambda>k. if k \<in> set keys then map_option (visitBinding sv info) (bis k) else bis k))"
  using assms
proof (induction keys arbitrary: bis)
  case Nil
  then show ?case by simp
next
  case (Cons key keys)
  from Cons.prems obtain b where b: "bis key = Some b" by auto
  let ?b = "visitBinding sv info b"
  let ?bis = "bis(key \<mapsto> ?b)"
  have fresh: "key \<notin> set keys" and dist: "distinct keys"
    using Cons.prems by simp_all
  have known: "list_all (\<lambda>k. ?bis k \<noteq> None) keys"
    unfolding known_update[of bis key b, OF b] using Cons.prems by simp
  have same: "k \<in> set keys \<Longrightarrow> ?bis k = bis k" for k
    using fresh by auto
  have rest: "collectBindings sv definitionNN info keys ?bis =
     Inr (map (\<lambda>k. visitBinding sv info (the (bis k))) keys,
          map (Pair definitionNN)
            (filter (\<lambda>k. validator (the (bis k)) = None \<and> configurationError info = None) keys),
          (\<lambda>k. if k \<in> set (key # keys) then map_option (visitBinding sv info) (bis k) else bis k))"
  proof -
    have m: "map (\<lambda>k. visitBinding sv info (the (?bis k))) keys =
             map (\<lambda>k. visitBinding sv info (the (bis k))) keys"
      by (rule map_cong) (simp_all add: same del: fun_upd_apply)
    have f: "filter (\<lambda>k. validator (the (?bis k)) = None \<and> configurationError info = None) keys =
             filter (\<lambda>k. validator (the (bis k)) = None \<and> configurationError info = None) keys"
      by (rule filter_cong) (simp_all add: same del: fun_upd_apply)
    have u: "(\<lambda>k. if k \<in> set keys then map_option (visitBinding sv info) (?bis k) else ?bis k) =
             (\<lambda>k. if k \<in> set (key # keys) then map_option (visitBinding sv info) (bis k) else bis k)"
      using fresh b by (auto simp: fun_eq_iff)
    show ?thesis
      using Cons.IH[OF dist known] by (simp only: m f u)
  qed
  show ?case
  proof (cases "validator b = None \<and> configurationError info = None")
    case True
    then have "?b = b\<lparr>validator :=
                 ValidatorCompiler_Compile sv (definitionInfo.lastReconciledValue info)\<rparr>"
      by (simp add: visitBinding_def)
    with True b rest show ?thesis by (simp add: Let_def)
  next
    case False
    then have eq: "?b = b" by (auto simp: visitBinding_def)
    have "?bis = bis" using b eq by (auto simp: fun_eq_iff)
    with False b rest eq show ?thesis by auto
  qed
qed

lemma rebuildPolicies_once:
  assumes "distinct (concat (map (\<lambda>(definitionNN, info). dependentsOf idx definitionNN) defs))"
    and "bindingsKnown idx bis defs"
  shows "\<exists>res bis'.
     rebuildPolicies sv ctrls idx defs bis =
       Inr (res,
            concat (map (\<lambda>(definitionNN, info).
              map (Pair definitionNN)
                (filter (\<lambda>k. validator (the (bis k)) = None \<and> configurationError info = None)
                   (dependentsOf idx definitionNN))) defs),
            bis') \<and>
     list_all2 (\<lambda>(definitionNN, info) pd.
        policyData.definitionInfo pd = info \<and>
        bindings pd = map (\<lambda>k. visitBinding sv info (the (bis k))) (dependentsOf idx definitionNN))
       defs res"
  using assms
proof (induction defs arbitrary: bis)
  case Nil
  then show ?case by simp
next
  case (Cons entry defs)
  obtain definitionNN info where entry: "entry = (definitionNN, info)" by (cases entry)
  let ?keys = "dependentsOf idx definitionNN"
  let ?later = "concat (map (\<lambda>(definitionNN, info). dependentsOf idx definitionNN) defs)"
  let ?bis = "\<lambda>k. if k \<in> set ?keys then map_option (visitBinding sv info) (bis k) else bis k"
  from Cons.prems entry have val: "definitionInfo.lastReconciledValue info \<noteq> None"
    and known: "list_all (\<lambda>k. bis k \<noteq> None) ?keys"
    and rest: "bindingsKnown idx bis defs"
    and dist: "distinct ?keys" and dist': "distinct ?later"
    and disjoint: "set ?keys \<inter> set ?later = {}"
    by (simp_all add: bindingsKnown_def)
  have visit: "collectBindings sv definitionNN info ?keys bis =
     Inr (map (\<lambda>k. visitBinding sv info (the (bis k))) ?keys,
          map (Pair definitionNN)
            (filter (\<lambda>k. validator (the (bis k)) = None \<and> configurationError info = None) ?keys),
          ?bis)"
    by (rule collectBindings_once[OF dist known])
  from findParamController_returns[OF val] obtain pc where
    pc: "findParamController ctrls info = Inr pc" by blast
  have untouched: "?bis k = bis k" if "(d, i) \<in> set defs" "k \<in> set (dependentsOf idx d)" for k d i
  proof -
    from that have "k \<in> set ?later" by auto
    with disjoint show ?thesis by auto
  qed
  have "bindingsKnown idx ?bis defs"
    using rest bindingsKnown_same[of ?bis bis idx defs] by simp
  from Cons.IH[OF dist' this] obtain res bis2 where
    tail: "rebuildPolicies sv ctrls idx defs ?bis =
       Inr (res,
            concat (map (\<lambda>(definitionNN, info).
              map (Pair definitionNN)
                (filter (\<lambda>k. validator (the (?bis k)) = None \<and> configurationError info = None)
                   (dependentsOf idx definitionNN))) defs),
            bis2)"
    and entries: "list_all2 (\<lambda>(definitionNN, info) pd.
        policyData.definitionInfo pd = info \<and>
        bindings pd = map (\<lambda>k. visitBinding sv info (the (?bis k))) (dependentsOf idx definitionNN))
       defs res"
    by blast
  have calls: "map (\<lambda>(definitionNN, info).
              map (Pair definitionNN)
                (filter (\<lambda>k. validator (the (?bis k)) = None \<and> configurationError info = None)
                   (dependentsOf idx definitionNN))) defs =
          map (\<lambda>(definitionNN, info).
              map (Pair definitionNN)
                (filter (\<lambda>k. validator (the (bis k)) = None \<and> configurationError info = None)
                   (dependentsOf idx definitionNN))) defs"
  proof (rule map_cong[OF refl])
    fix x assume x: "x \<in> set defs"
    obtain d i where "x = (d, i)" by (cases x)
    with x have "filter (\<lambda>k. validator (the (?bis k)) = None \<and> configurationError i = None)
                   (dependentsOf idx d) =
                 filter (\<lambda>k. validator (the (bis k)) = None \<and> configurationError i = None)
                   (dependentsOf idx d)"
      by (intro filter_cong refl) (simp only: untouched)
    with \<open>x = (d, i)\<close> show "(case x of (definitionNN, info) \<Rightarrow>
              map (Pair definitionNN)
                (filter (\<lambda>k. validator (the (?bis k)) = None \<and> configurationError info = None)
                   (dependentsOf idx definitionNN))) =
          (case x of (definitionNN, info) \<Rightarrow>
              map (Pair definitionNN)
                (filter (\<lambda>k. validator (the (bis k)) = None \<and> configurationError info = None)
                   (dependentsOf idx definitionNN)))"
      by simp
  qed
  have entries': "list_all2 (\<lambda>(definitionNN, info) pd.
        policyData.definitionInfo pd = info \<and>
        bindings pd = map (\<lambda>k. visitBinding sv info (the (bis k))) (dependentsOf idx definitionNN))
       defs res"
  proof (rule list.rel_mono_strong[OF entries])
    fix x pd assume x: "x \<in> set defs"
      and P: "(case x of (definitionNN, info) \<Rightarrow> \<lambda>pd.
        policyData.definitionInfo pd = info \<and>
        bindings pd = map (\<lambda>k. visitBinding sv info (the (?bis k))) (dependentsOf idx definitionNN)) pd"
    obtain d i where xi: "x = (d, i)" by (cases x)
    with x have "map (\<lambda>k. visitBinding sv i (the (?bis k))) (dependentsOf idx d) =
                 map (\<lambda>k. visitBinding sv i (the (bis k))) (dependentsOf idx d)"
      by (intro map_cong refl) (simp only: untouched)
    with P xi show "(case x of (definitionNN, info) \<Rightarrow> \<lambda>pd.
        policyData.definitionInfo pd = info \<and>
        bindings pd = map (\<lambda>k. visitBinding sv info (the (bis k))) (dependentsOf idx definitionNN)) pd"
      by simp
  qed
  show ?case
    using entry visit pc tail entries' by (simp add: calls)
qed

lemma visited_once:
  "distinct (concat (map f xs)) \<Longrightarrow> x \<in> set xs \<Longrightarrow> y \<in> set xs \<Longrightarrow>
   k \<in> set (f x) \<Longrightarrow> k \<in> set (f y) \<Longrightarrow> x = y"
  by (induction xs) auto

lemma distinct_concat_filter:
  "distinct (concat (map f xs)) \<Longrightarrow> distinct (concat (map (\<lambda>x. filter (P x) (f x)) xs))"
  by (induction xs) auto


text \<open>A rebuild (a read that finds no cached list) on a state where no nil pointer is
  dereferenced and no binding is listed under two definition records does what C3 says;
  every state the controller reaches while bindings name their policies is such a state
  (\<open>reachable_states_are_consistent\<close> below). For a definition whose record holds a
  configuration error the compiler is called for none of its bindings, and its snapshot
  entry holds the binding records as they were before the read, so an absent validator
  stays absent. The compiler is called exactly for the listed bindings without a validator
  whose definition has no configuration error, once each.\<close>

theorem configuration_error_blocks_compilation:
  assumes stale: "cachedPolicies c = []"
    and computable: "snapshotComputable c"
    and once: "distinct (visitedBindings c)"
  shows "\<exists>res calls c'.
     latestPolicyData sv c = Inr (res, calls, c') \<and>
     (\<forall>(definitionNN, info) \<in> set (definitionInfo c).
        configurationError info \<noteq> None \<longrightarrow>
        (\<forall>bindingNN \<in> set (dependentsOf (definitionsToBindings c) definitionNN).
           bindingNN \<notin> snd ` set calls)) \<and>
     list_all2 (\<lambda>(definitionNN, info) pd.
        policyData.definitionInfo pd = info \<and>
        (configurationError info \<noteq> None \<longrightarrow>
         map Some (bindings pd) =
           map (bindingInfos c) (dependentsOf (definitionsToBindings c) definitionNN)))
       (definitionInfo c) res \<and>
     set calls =
       {(definitionNN, bindingNN). \<exists>info b.
          (definitionNN, info) \<in> set (definitionInfo c) \<and>
          bindingNN \<in> set (dependentsOf (definitionsToBindings c) definitionNN) \<and>
          bindingInfos c bindingNN = Some b \<and>
          validator b = None \<and> configurationError info = None} \<and>
     distinct (map snd calls)"
proof -
  let ?idx = "definitionsToBindings c"
  let ?bis = "bindingInfos c"
  let ?defs = "definitionInfo c"
  let ?need = "\<lambda>info k. validator (the (?bis k)) = None \<and> configurationError info = None"
  let ?calls = "concat (map (\<lambda>(definitionNN, info).
              map (Pair definitionNN) (filter (?need info) (dependentsOf ?idx definitionNN))) ?defs)"
  have once': "distinct (concat (map (\<lambda>(definitionNN, info). dependentsOf ?idx definitionNN) ?defs))"
    using once by (simp add: visitedBindings_def)
  have known: "bindingsKnown ?idx ?bis ?defs"
    using computable by (simp add: snapshotComputable_def)
  have stored: "\<exists>b. ?bis k = Some b" if "(d, i) \<in> set ?defs" "k \<in> set (dependentsOf ?idx d)" for d i k
    using known that by (auto simp: bindingsKnown_def list_all_iff)
  from rebuildPolicies_once[OF once' known, of sv "paramsCRDControllers c"]
  obtain res bis' where
    rebuilt: "rebuildPolicies sv (paramsCRDControllers c) ?idx ?defs ?bis = Inr (res, ?calls, bis')"
    and entries: "list_all2 (\<lambda>(definitionNN, info) pd.
        policyData.definitionInfo pd = info \<and>
        bindings pd = map (\<lambda>k. visitBinding sv info (the (?bis k))) (dependentsOf ?idx definitionNN))
       ?defs res"
    by blast
  have read: "latestPolicyData sv c =
      Inr (res, ?calls, c\<lparr>bindingInfos := bis', cachedPolicies := res\<rparr>)"
    using stale rebuilt by (simp add: latestPolicyData_def)
  have calls: "set ?calls =
       {(definitionNN, bindingNN). \<exists>info b.
          (definitionNN, info) \<in> set ?defs \<and>
          bindingNN \<in> set (dependentsOf ?idx definitionNN) \<and>
          ?bis bindingNN = Some b \<and>
          validator b = None \<and> configurationError info = None}"
    using stored by (fastforce)
  have never': "k \<notin> snd ` set ?calls"
    if di: "(d, i) \<in> set ?defs" and err: "configurationError i \<noteq> None"
      and k: "k \<in> set (dependentsOf ?idx d)" for d i k
  proof
    assume "k \<in> snd ` set ?calls"
    then obtain d' where called: "(d', k) \<in> set ?calls" by force
    from called obtain i' where di': "(d', i') \<in> set ?defs"
      and k': "k \<in> set (dependentsOf ?idx d')" and ok: "configurationError i' = None"
      unfolding calls by blast
    have "(d, i) = (d', i')"
      using visited_once[OF once' di di', of k] k k' by simp
    with err ok show False by simp
  qed
  have never: "\<forall>(definitionNN, info) \<in> set ?defs.
        configurationError info \<noteq> None \<longrightarrow>
        (\<forall>bindingNN \<in> set (dependentsOf ?idx definitionNN). bindingNN \<notin> snd ` set ?calls)"
    using never' by blast
  have slots: "list_all2 (\<lambda>(definitionNN, info) pd.
        policyData.definitionInfo pd = info \<and>
        (configurationError info \<noteq> None \<longrightarrow>
         map Some (bindings pd) = map ?bis (dependentsOf ?idx definitionNN)))
       ?defs res"
  proof (rule list.rel_mono_strong[OF entries])
    fix x pd assume x: "x \<in> set ?defs"
      and P: "(case x of (definitionNN, info) \<Rightarrow> \<lambda>pd.
        policyData.definitionInfo pd = info \<and>
        bindings pd = map (\<lambda>k. visitBinding sv info (the (?bis k))) (dependentsOf ?idx definitionNN)) pd"
    obtain d i where xi: "x = (d, i)" by (cases x)
    have "map Some (map (\<lambda>k. visitBinding sv i (the (?bis k))) (dependentsOf ?idx d))
          = map ?bis (dependentsOf ?idx d)" if "configurationError i \<noteq> None"
      using stored[of d i] x xi that by (auto simp: visitBinding_def)
    with P xi show "(case x of (definitionNN, info) \<Rightarrow> \<lambda>pd.
        policyData.definitionInfo pd = info \<and>
        (configurationError info \<noteq> None \<longrightarrow>
         map Some (bindings pd) = map ?bis (dependentsOf ?idx definitionNN))) pd"
      by simp
  qed
  have "map snd ?calls =
      concat (map (\<lambda>x. filter (\<lambda>k. ?need (snd x) k) (dependentsOf ?idx (fst x))) ?defs)"
    by (simp add: map_concat comp_def case_prod_unfold)
  also have "distinct \<dots>"
    using distinct_concat_filter[of "\<lambda>x. dependentsOf ?idx (fst x)" ?defs
            "\<lambda>x k. ?need (snd x) k"] once'
    by (simp add: case_prod_unfold)
  finally have dist: "distinct (map snd ?calls)" .
  from read never slots calls dist show ?thesis by blast
qed

theorem configuration_error_blocks_compilation_witness:
  "cachedPolicies mixedState = [] \<and>
   snapshotComputable mixedState \<and>
   distinct (visitedBindings mixedState) \<and>
   (\<exists>res calls c'.
      latestPolicyData (servicesStub [''ConfigMap'']) mixedState = Inr (res, calls, c') \<and>
      set calls = {(getNamespaceName [] ''policy-A'', getNamespaceName [] ''binding-1'')} \<and>
      getNamespaceName [] ''binding-2'' \<notin> snd ` set calls \<and>
      map (map validator \<circ> bindings) res = [[Some (Validator ''compiled'')], [None]])"
proof -
  let ?sv = "servicesStub [''ConfigMap'']"
  let ?A = "getNamespaceName [] ''policy-A''"
  let ?b1 = "getNamespaceName [] ''binding-1''"
  let ?b2 = "getNamespaceName [] ''binding-2''"
  have stale: "cachedPolicies mixedState = []"
    by (simp add: mixedState_def)
  have computable: "snapshotComputable mixedState"
    by (simp add: snapshotComputable_def bindingsKnown_def dependentsOf_def mixedState_def
          getNamespaceName_def)
  have once: "distinct (visitedBindings mixedState)"
    by (simp add: visitedBindings_def dependentsOf_def mixedState_def getNamespaceName_def)
  have direct: "\<exists>c'. latestPolicyData ?sv mixedState =
      Inr ([\<lparr>policyData.definitionInfo =
              \<lparr>definitionInfo.lastReconciledValue = Some (policyWith (Some configMapKind)),
               configurationError = None\<rparr>,
            paramController = Some configMapController,
            bindings = [\<lparr>validator = Some (Validator ''compiled''),
                         lastReconciledValue = Some (bindingTo ''policy-A'')\<rparr>]\<rparr>,
            \<lparr>policyData.definitionInfo =
              \<lparr>definitionInfo.lastReconciledValue = Some (policyWith (Some malformedKind)),
               configurationError =
                 Some (FailedToParseApiVersion malformedKind
                         (ServiceError ''unexpected GroupVersion string''))\<rparr>,
            paramController = None,
            bindings = [\<lparr>validator = None,
                         lastReconciledValue = Some (bindingTo ''policy-bad'')\<rparr>]\<rparr>],
           [(?A, ?b1)], c')"
    by (simp add: op_defs fixture_defs)
  from configuration_error_blocks_compilation[OF stale computable once, of ?sv]
  obtain res calls c' where
    read: "latestPolicyData ?sv mixedState = Inr (res, calls, c')"
    and never: "\<forall>(definitionNN, info) \<in> set (definitionInfo mixedState).
        configurationError info \<noteq> None \<longrightarrow>
        (\<forall>bindingNN \<in> set (dependentsOf (definitionsToBindings mixedState) definitionNN).
           bindingNN \<notin> snd ` set calls)"
    by blast
  from never have "?b2 \<notin> snd ` set calls"
    by (simp add: mixedState_def dependentsOf_def getNamespaceName_def)
  with read direct stale computable once show ?thesis
    by auto
qed

section \<open>Reachable states\<close>

text \<open>The reconcilers in terms of the index as a relation between definitions and
  bindings.\<close>

lemma removeAll_NilD: "removeAll x xs = [] \<Longrightarrow> y \<in> set xs \<Longrightarrow> y = x"
  by (induction xs) (auto split: if_splits)

lemma bindingInfo_overwrite:
  "info\<lparr>validator := x, lastReconciledValue := y\<rparr> = \<lparr>validator = x, lastReconciledValue = y\<rparr>"
  by (cases info) simp

lemma set_removeFromOldDefinition:
  "set (dependentsOf (removeFromOldDefinition nn old new idx) d) =
     (if old \<noteq> new \<and> d = old then set (dependentsOf idx d) - {nn} else set (dependentsOf idx d))"
  by (auto simp: removeFromOldDefinition_def dependentsOf_def Let_def split: option.splits
        dest: removeAll_NilD)

lemma set_addToNewDefinition:
  "set (dependentsOf (addToNewDefinition nn new idx) d) =
     (if d = new then insert nn (set (dependentsOf idx d)) else set (dependentsOf idx d))"
  by (auto simp: addToNewDefinition_def dependentsOf_def split: option.splits)

lemma setsProper_remove:
  "setsProper idx \<Longrightarrow> setsProper (removeFromOldDefinition nn old new idx)"
  by (auto simp: setsProper_def removeFromOldDefinition_def Let_def distinct_removeAll
        split: option.splits if_splits)

lemma setsProper_add:
  "setsProper idx \<Longrightarrow> setsProper (addToNewDefinition nn new idx)"
  by (auto simp: setsProper_def addToNewDefinition_def List.insert_def split: option.splits if_splits)

lemma reconcilePolicyBinding_eq:
  "reconcilePolicyBinding ns n binding c =
     (let nn = getNamespaceName ns n;
          old = (case bindingValue c nn of
                   Some (Some v) \<Rightarrow> getNamespaceName [] (Spec_PolicyName v)
                 | _ \<Rightarrow> zeroNamespacedName);
          new = (case binding of
                   None \<Rightarrow> zeroNamespacedName
                 | Some b \<Rightarrow> getNamespaceName [] (Spec_PolicyName b));
          idx = removeFromOldDefinition nn old new (definitionsToBindings c)
      in (case binding of
            None \<Rightarrow>
              (None, c\<lparr>cachedPolicies := [], bindingInfos := (bindingInfos c)(nn := None),
                       definitionsToBindings := idx\<rparr>)
          | Some b \<Rightarrow>
              (None, c\<lparr>cachedPolicies := [],
                       bindingInfos := (bindingInfos c)(nn \<mapsto>
                         \<lparr>validator = None, lastReconciledValue = Some b\<rparr>),
                       definitionsToBindings := addToNewDefinition nn new idx\<rparr>)))"
  by (cases "bindingInfos c (getNamespaceName ns n)"; cases binding)
     (auto simp: reconcilePolicyBinding_def fetchBindingInfo_def bindingValue_def Let_def
        zeroBindingInfo_def bindingInfo_overwrite split: option.splits)

lemma wellFormed_binding_update:
  assumes wf: "wellFormed c" and named: "Spec_PolicyName b \<noteq> []"
  shows "wellFormed (snd (reconcilePolicyBinding ns n (Some b) c))"
proof -
  let ?nn = "getNamespaceName ns n"
  let ?old = "case bindingValue c ?nn of
                Some (Some v) \<Rightarrow> getNamespaceName [] (Spec_PolicyName v)
              | _ \<Rightarrow> zeroNamespacedName"
  let ?new = "getNamespaceName [] (Spec_PolicyName b)"
  let ?idx = "addToNewDefinition ?nn ?new
                (removeFromOldDefinition ?nn ?old ?new (definitionsToBindings c))"
  let ?c = "c\<lparr>cachedPolicies := [],
              bindingInfos := (bindingInfos c)(?nn \<mapsto>
                \<lparr>validator = None, lastReconciledValue = Some b\<rparr>),
              definitionsToBindings := ?idx\<rparr>"
  have result: "snd (reconcilePolicyBinding ns n (Some b) c) = ?c"
    by (simp add: reconcilePolicyBinding_eq Let_def)
  have val: "bindingValue ?c k = (if k = ?nn then Some (Some b) else bindingValue c k)" for k
    by (simp add: bindingValue_def)
  from wf have proper: "setsProper (definitionsToBindings c)"
    and member: "\<And>d k. k \<in> set (dependentsOf (definitionsToBindings c) d) \<longleftrightarrow>
         (\<exists>v. bindingValue c k = Some (Some v) \<and> getNamespaceName [] (Spec_PolicyName v) = d)"
    and named_values: "\<And>k x. bindingValue c k = Some x \<Longrightarrow> \<exists>v. x = Some v \<and> Spec_PolicyName v \<noteq> []"
    and defs: "list_all (\<lambda>(definitionNN, info). definitionInfo.lastReconciledValue info \<noteq> None)
                 (definitionInfo c)"
    and keys: "distinct (map fst (definitionInfo c))"
    by (auto simp: wellFormed_def)
  have proper': "setsProper ?idx"
    by (intro setsProper_add setsProper_remove proper)
  have member': "k \<in> set (dependentsOf ?idx d) \<longleftrightarrow>
         (\<exists>v. bindingValue ?c k = Some (Some v) \<and> getNamespaceName [] (Spec_PolicyName v) = d)" for d k
  proof (cases "k = ?nn")
    case False
    then show ?thesis
      by (simp add: set_addToNewDefinition set_removeFromOldDefinition val member)
  next
    case True
    have "?nn \<in> set (dependentsOf (definitionsToBindings c) d) \<Longrightarrow> d = ?old"
      by (auto simp: member)
    with True show ?thesis
      by (auto simp: set_addToNewDefinition set_removeFromOldDefinition val)
  qed
  have named_values': "\<exists>v. x = Some v \<and> Spec_PolicyName v \<noteq> []" if "bindingValue ?c k = Some x" for k x
    using that named named_values[of k x] by (auto simp: val split: if_splits)
  show ?thesis
    unfolding result wellFormed_def
    using proper' member' named_values' defs keys by simp
qed

lemma wellFormed_binding_delete:
  assumes wf: "wellFormed c"
  shows "wellFormed (snd (reconcilePolicyBinding ns n None c))"
proof -
  let ?nn = "getNamespaceName ns n"
  let ?old = "case bindingValue c ?nn of
                Some (Some v) \<Rightarrow> getNamespaceName [] (Spec_PolicyName v)
              | _ \<Rightarrow> zeroNamespacedName"
  let ?idx = "removeFromOldDefinition ?nn ?old zeroNamespacedName (definitionsToBindings c)"
  let ?c = "c\<lparr>cachedPolicies := [],
              bindingInfos := (bindingInfos c)(?nn := None),
              definitionsToBindings := ?idx\<rparr>"
  have result: "snd (reconcilePolicyBinding ns n None c) = ?c"
    by (simp add: reconcilePolicyBinding_eq Let_def)
  have val: "bindingValue ?c k = (if k = ?nn then None else bindingValue c k)" for k
    by (simp add: bindingValue_def)
  from wf have proper: "setsProper (definitionsToBindings c)"
    and member: "\<And>d k. k \<in> set (dependentsOf (definitionsToBindings c) d) \<longleftrightarrow>
         (\<exists>v. bindingValue c k = Some (Some v) \<and> getNamespaceName [] (Spec_PolicyName v) = d)"
    and named_values: "\<And>k x. bindingValue c k = Some x \<Longrightarrow> \<exists>v. x = Some v \<and> Spec_PolicyName v \<noteq> []"
    and defs: "list_all (\<lambda>(definitionNN, info). definitionInfo.lastReconciledValue info \<noteq> None)
                 (definitionInfo c)"
    and keys: "distinct (map fst (definitionInfo c))"
    by (auto simp: wellFormed_def)
  have proper': "setsProper ?idx"
    by (intro setsProper_remove proper)
  have member': "k \<in> set (dependentsOf ?idx d) \<longleftrightarrow>
         (\<exists>v. bindingValue ?c k = Some (Some v) \<and> getNamespaceName [] (Spec_PolicyName v) = d)" for d k
  proof (cases "k = ?nn")
    case False
    then show ?thesis
      by (simp add: set_removeFromOldDefinition val member)
  next
    case True
    have "d = ?old \<and> ?old \<noteq> zeroNamespacedName"
      if "?nn \<in> set (dependentsOf (definitionsToBindings c) d)"
    proof -
      from that obtain v where v: "bindingValue c ?nn = Some (Some v)"
        and d: "getNamespaceName [] (Spec_PolicyName v) = d"
        by (auto simp: member)
      from named_values[OF v] have "Spec_PolicyName v \<noteq> []" by simp
      with v d show ?thesis by (auto simp: getNamespaceName_def zeroNamespacedName_def)
    qed
    with True show ?thesis
      by (auto simp: set_removeFromOldDefinition val)
  qed
  have named_values': "\<exists>v. x = Some v \<and> Spec_PolicyName v \<noteq> []" if "bindingValue ?c k = Some x" for k x
    using that named_values[of k x] by (auto simp: val split: if_splits)
  show ?thesis
    unfolding result wellFormed_def
    using proper' member' named_values' defs keys by simp
qed

lemma wellFormed_cong:
  "definitionsToBindings c' = definitionsToBindings c \<Longrightarrow>
   definitionInfo c' = definitionInfo c \<Longrightarrow>
   (\<And>k. bindingValue c' k = bindingValue c k) \<Longrightarrow>
   wellFormed c' = wellFormed c"
  by (simp add: wellFormed_def)

lemma wellFormed_known:
  "wellFormed c \<Longrightarrow> k \<in> set (dependentsOf (definitionsToBindings c) d) \<Longrightarrow>
   bindingInfos c k \<noteq> None"
  by (auto simp: wellFormed_def bindingValue_def)

lemma wellFormed_dependentsKnown: "wellFormed c \<Longrightarrow> dependentsKnown c nn"
  by (auto simp: dependentsKnown_def list_all_iff dest: wellFormed_known)

lemma wellFormed_computable: "wellFormed c \<Longrightarrow> snapshotComputable c"
proof -
  assume wf: "wellFormed c"
  then have held: "list_all (\<lambda>(definitionNN, info). definitionInfo.lastReconciledValue info \<noteq> None)
                 (definitionInfo c)"
    by (simp add: wellFormed_def)
  have known: "list_all (\<lambda>k. bindingInfos c k \<noteq> None) (dependentsOf (definitionsToBindings c) d)" for d
    using wellFormed_dependentsKnown[OF wf, of d] by (simp add: dependentsKnown_def)
  show ?thesis
    unfolding snapshotComputable_def bindingsKnown_def
    using held known by (auto simp: list_all_iff)
qed

lemma wellFormed_indexInvariant: "wellFormed c \<Longrightarrow> indexInvariant c"
proof -
  assume wf: "wellFormed c"
  have "bindingInfos c k \<noteq> None" if "definitionsToBindings c d = Some s" "k \<in> set s" for d s k
    using wellFormed_known[OF wf, of k d] that by (simp add: dependentsOf_def)
  moreover have "s \<noteq> []" if "definitionsToBindings c d = Some s" for d s
    using wf that by (auto simp: wellFormed_def setsProper_def)
  ultimately show ?thesis by (auto simp: indexInvariant_def)
qed

lemma distinct_concat_keys:
  "distinct (map fst defs) \<Longrightarrow> (\<And>d. distinct (f d)) \<Longrightarrow>
   (\<And>d d' k. k \<in> set (f d) \<Longrightarrow> k \<in> set (f d') \<Longrightarrow> d = d') \<Longrightarrow>
   distinct (concat (map (\<lambda>(d, i). f d) defs))"
proof (induction defs)
  case Nil
  then show ?case by simp
next
  case (Cons x defs)
  obtain d i where x: "x = (d, i)" by (cases x)
  have "set (f d) \<inter> set (concat (map (\<lambda>(d, i). f d) defs)) = {}"
  proof (rule ccontr)
    assume "set (f d) \<inter> set (concat (map (\<lambda>(d, i). f d) defs)) \<noteq> {}"
    then obtain k d' i' where "k \<in> set (f d)" "(d', i') \<in> set defs" "k \<in> set (f d')"
      by auto
    with Cons.prems(3)[of k d d'] Cons.prems(1) x show False by force
  qed
  with Cons x show ?case by simp
qed

lemma wellFormed_listedOnce: "wellFormed c \<Longrightarrow> distinct (visitedBindings c)"
proof -
  assume wf: "wellFormed c"
  have each: "distinct (dependentsOf (definitionsToBindings c) d)" for d
    using wf by (auto simp: wellFormed_def setsProper_def dependentsOf_def split: option.splits)
  have one: "d = d'" if "k \<in> set (dependentsOf (definitionsToBindings c) d)"
    "k \<in> set (dependentsOf (definitionsToBindings c) d')" for d d' k
    using wf that unfolding wellFormed_def by auto
  from wf have "distinct (map fst (definitionInfo c))" by (simp add: wellFormed_def)
  from distinct_concat_keys[OF this each one] show ?thesis
    by (simp add: visitedBindings_def)
qed

lemma list_all_update:
  "list_all P al \<Longrightarrow> P (k, v) \<Longrightarrow> list_all P (AList.update k v al)"
  by (induction al) auto

lemma fetched_update:
  assumes "list_all P defs" and "distinct (map fst defs)" and "P (nn, info')"
  shows "list_all P (AList.update nn info' (fst (snd (fetchDefinitionInfo nn defs)))) \<and>
         distinct (map fst (AList.update nn info' (fst (snd (fetchDefinitionInfo nn defs)))))"
proof (cases "map_of defs nn")
  case (Some info)
  then have "fst (snd (fetchDefinitionInfo nn defs)) = defs"
    by (simp add: fetchDefinitionInfo_def)
  with assms show ?thesis by (simp add: list_all_update distinct_update)
next
  case None
  then have fresh: "nn \<notin> fst ` set defs" by (simp add: map_of_eq_None_iff)
  from None have "fst (snd (fetchDefinitionInfo nn defs)) = defs @ [(nn, zeroDefinitionInfo)]"
    by (simp add: fetchDefinitionInfo_def)
  with assms fresh show ?thesis by (simp add: update_append_new)
qed

lemma clearValidators_bindingValue:
  "map_option lastReconciledValue (clearValidators keys bis k) = map_option lastReconciledValue (bis k)"
  by (cases "bis k") (simp_all add: clearValidators_def)

lemma wellFormed_definition:
  assumes wf: "wellFormed c"
  shows "\<exists>err c' effs. reconcilePolicyDefinition sv ns n d c = Inr (err, c', effs) \<and> wellFormed c'"
proof -
  let ?nn = "getNamespaceName ns n"
  let ?P = "\<lambda>(definitionNN, info). definitionInfo.lastReconciledValue info \<noteq> None"
  have known: "dependentsKnown c ?nn" by (rule wellFormed_dependentsKnown[OF wf])
  from wf have held: "list_all ?P (definitionInfo c)"
    and keys: "distinct (map fst (definitionInfo c))"
    by (simp_all add: wellFormed_def)
  have rest: "wellFormed c'"
    if idx: "definitionsToBindings c' = definitionsToBindings c"
      and bis: "bindingInfos c' = clearValidators keys (bindingInfos c)"
      and held': "list_all ?P (definitionInfo c')"
      and keys': "distinct (map fst (definitionInfo c'))" for c' keys
  proof -
    have "bindingValue c' k = bindingValue c k" for k
      by (simp add: bindingValue_def bis clearValidators_bindingValue)
    with wf idx held' keys' show ?thesis by (simp add: wellFormed_def)
  qed
  show ?thesis
  proof (cases d)
    case None
    let ?c = "c\<lparr>cachedPolicies := [],
            paramsCRDControllers :=
              fst (removeOldDependency ?nn (fst (fetchDefinitionInfo ?nn (definitionInfo c))) None
                     (paramsCRDControllers c)),
            definitionInfo := AList.delete ?nn (definitionInfo c),
            bindingInfos := clearValidators
              (dependentsOf (definitionsToBindings c) ?nn) (bindingInfos c)\<rparr>"
    have "list_all ?P (AList.delete ?nn (definitionInfo c))"
      using held by (auto simp: AList.delete_eq list_all_iff)
    then have "wellFormed ?c"
      using keys by (intro rest[of ?c "dependentsOf (definitionsToBindings c) ?nn"])
                    (simp_all add: distinct_delete)
    with reconcile_delete_eq[OF known, of sv] None show ?thesis by simp
  next
    case (Some v)
    from reconcile_update_shape[OF known, of sv v]
    obtain err c' effs info' where
      ret: "reconcilePolicyDefinition sv ns n (Some v) c = Inr (err, c', effs)"
      and idx: "definitionsToBindings c' = definitionsToBindings c"
      and bis: "bindingInfos c' = clearValidators
                  (dependentsOf (definitionsToBindings c) ?nn) (bindingInfos c)"
      and defs: "definitionInfo c' = AList.update ?nn info'
                   (fst (snd (fetchDefinitionInfo ?nn (definitionInfo c))))"
      and val: "definitionInfo.lastReconciledValue info' = Some v"
      by blast
    from val have "?P (?nn, info')" by simp
    from fetched_update[of ?P, OF held keys this]
    have "wellFormed c'"
      by (intro rest[OF idx bis]) (simp_all add: defs)
    with ret Some show ?thesis by blast
  qed
qed

lemma latestPolicyData_frame:
  assumes "snapshotComputable c"
  shows "\<exists>res calls c'.
     latestPolicyData sv c = Inr (res, calls, c') \<and>
     definitionsToBindings c' = definitionsToBindings c \<and>
     definitionInfo c' = definitionInfo c \<and>
     paramsCRDControllers c' = paramsCRDControllers c \<and>
     (\<forall>k. bindingValue c' k = bindingValue c k)"
proof (cases "cachedPolicies c = []")
  case False
  then show ?thesis by (simp add: latestPolicyData_def)
next
  case True
  from rebuildPolicies_returns[OF assms[unfolded snapshotComputable_def],
         of sv "paramsCRDControllers c"]
  obtain res calls bis' where
    "rebuildPolicies sv (paramsCRDControllers c) (definitionsToBindings c) (definitionInfo c)
       (bindingInfos c) = Inr (res, calls, bis')"
    "\<forall>k. map_option lastReconciledValue (bis' k) =
         map_option lastReconciledValue (bindingInfos c k)"
    by blast
  with True show ?thesis by (simp add: latestPolicyData_def bindingValue_def)
qed

lemma wellFormed_read:
  assumes wf: "wellFormed c"
  shows "\<exists>res calls c'. latestPolicyData sv c = Inr (res, calls, c') \<and> wellFormed c'"
proof -
  from latestPolicyData_frame[OF wellFormed_computable[OF wf], of sv]
  obtain res calls c' where
    "latestPolicyData sv c = Inr (res, calls, c')"
    "definitionsToBindings c' = definitionsToBindings c"
    "definitionInfo c' = definitionInfo c"
    "\<And>k. bindingValue c' k = bindingValue c k"
    by blast
  with wf wellFormed_cong[of c' c] show ?thesis by blast
qed

lemma wellFormed_step:
  assumes "namedPolicy e" and wf: "wellFormed c"
  shows "\<exists>err c'. step e c = Inr (err, c') \<and> wellFormed c'"
proof (cases e)
  case (ReconcileDefinition sv ns n d)
  with wellFormed_definition[OF wf, of sv ns n d] show ?thesis by auto
next
  case (ReconcileBinding ns n b)
  show ?thesis
  proof (cases b)
    case None
    with ReconcileBinding wellFormed_binding_delete[OF wf, of ns n] show ?thesis
      by (cases "reconcilePolicyBinding ns n None c") auto
  next
    case (Some v)
    with ReconcileBinding assms(1) have "Spec_PolicyName v \<noteq> []" by simp
    from wellFormed_binding_update[OF wf this, of ns n] Some ReconcileBinding show ?thesis
      by (cases "reconcilePolicyBinding ns n (Some v) c") auto
  qed
next
  case (LatestPolicyData sv)
  with wellFormed_read[OF wf, of sv] show ?thesis by auto
qed

lemma wellFormed_new: "wellFormed newPolicyController"
  by (simp add: wellFormed_def setsProper_def newPolicyController_def dependentsOf_def
        bindingValue_def)

lemma wellFormed_run:
  "list_all namedPolicy es \<Longrightarrow> wellFormed c \<Longrightarrow>
   \<exists>errs c'. run es c = Inr (errs, c') \<and> wellFormed c'"
proof (induction es arbitrary: c)
  case Nil
  then show ?case by simp
next
  case (Cons e es)
  from Cons.prems have "namedPolicy e" and rest: "list_all namedPolicy es" by simp_all
  from wellFormed_step[OF this(1) Cons.prems(2)] obtain err c1 where
    first: "step e c = Inr (err, c1)" and wf1: "wellFormed c1" by blast
  from Cons.IH[OF rest wf1] obtain errs c' where
    "run es c1 = Inr (errs, c')" "wellFormed c'" by blast
  with first show ?case by simp
qed

text \<open>From the empty controller, every sequence of reconciles and reads whose binding
  values name their policies runs without a panic and ends in a state where the two
  invariants of the index hold, the rebuild dereferences no nil pointer and no binding is
  listed under two definition records.\<close>

theorem reachable_states_are_consistent:
  assumes "list_all namedPolicy es"
  shows "\<exists>errs c. run es newPolicyController = Inr (errs, c) \<and>
           indexInvariant c \<and> snapshotComputable c \<and> distinct (visitedBindings c)"
  using wellFormed_run[OF assms wellFormed_new]
  by (auto intro: wellFormed_indexInvariant wellFormed_computable wellFormed_listedOnce)

section \<open>Resetting validators and the next rebuild\<close>

text \<open>The calls a rebuild makes to the compiler, on any state: a call made for a
  definition and a binding comes from a record of that definition without configuration
  error that lists the binding; a binding for which no call is made keeps its record; and a
  listed binding without a validator whose definition has no configuration error is
  compiled.\<close>

lemma collectBindings_Cons:
  assumes "collectBindings sv definitionNN info (key # keys) bis = Inr (out, calls, bis')"
  shows "\<exists>b out2 calls2.
     bis key = Some b \<and>
     collectBindings sv definitionNN info keys (bis(key \<mapsto> visitBinding sv info b))
       = Inr (out2, calls2, bis') \<and>
     calls = (if validator b = None \<and> configurationError info = None
              then [(definitionNN, key)] else []) @ calls2"
proof -
  from assms obtain b where b: "bis key = Some b"
    by (cases "bis key") auto
  show ?thesis
  proof (cases "validator b = None \<and> configurationError info = None")
    case True
    then have v: "visitBinding sv info b = b\<lparr>validator :=
                 ValidatorCompiler_Compile sv (definitionInfo.lastReconciledValue info)\<rparr>"
      by (simp add: visitBinding_def)
    from assms b True show ?thesis
      by (auto simp: Let_def v split: sum.splits)
  next
    case False
    then have veq: "visitBinding sv info b = b" by (auto simp: visitBinding_def)
    from assms b False show ?thesis
      by (auto simp: veq map_upd_triv[of bis key b, OF b] split: sum.splits)
  qed
qed

lemma visitBinding_untouched:
  "\<not> (validator b = None \<and> configurationError info = None) \<Longrightarrow> visitBinding sv info b = b"
  by (auto simp: visitBinding_def)

lemma collectBindings_facts:
  "collectBindings sv definitionNN info keys bis = Inr (out, calls, bis') \<Longrightarrow>
   (\<forall>d k. (d, k) \<in> set calls \<longrightarrow>
      d = definitionNN \<and> k \<in> set keys \<and> configurationError info = None) \<and>
   (\<forall>k. k \<notin> snd ` set calls \<longrightarrow> bis' k = bis k) \<and>
   (\<forall>k b. configurationError info = None \<longrightarrow> k \<in> set keys \<longrightarrow>
      bis k = Some b \<longrightarrow> validator b = None \<longrightarrow> (definitionNN, k) \<in> set calls)"
proof (induction keys arbitrary: bis out calls bis')
  case Nil
  then show ?case by simp
next
  case (Cons key keys)
  from collectBindings_Cons[OF Cons.prems] obtain b out2 calls2 where
    b: "bis key = Some b"
    and rest: "collectBindings sv definitionNN info keys (bis(key \<mapsto> visitBinding sv info b))
                 = Inr (out2, calls2, bis')"
    and calls: "calls = (if validator b = None \<and> configurationError info = None
                         then [(definitionNN, key)] else []) @ calls2"
    by blast
  let ?bis = "bis(key \<mapsto> visitBinding sv info b)"
  note ih = Cons.IH[OF rest]
  note ih_source = ih[THEN conjunct1, rule_format]
  note ih_frame = ih[THEN conjunct2, THEN conjunct1, rule_format]
  note ih_compiled = ih[THEN conjunct2, THEN conjunct2, rule_format]
  have source: "d = definitionNN \<and> k \<in> set (key # keys) \<and> configurationError info = None"
    if mem: "(d, k) \<in> set calls" for d k
  proof (cases "(d, k) \<in> set calls2")
    case True
    from ih_source[OF True] show ?thesis by simp
  next
    case False
    with mem calls show ?thesis by (simp split: if_splits)
  qed
  have frame: "bis' k = bis k" if out: "k \<notin> snd ` set calls" for k
  proof -
    from out calls have k2: "k \<notin> snd ` set calls2" by (simp add: image_Un)
    have "?bis k = bis k"
    proof (cases "k = key")
      case True
      with out calls have "\<not> (validator b = None \<and> configurationError info = None)"
        by (auto split: if_splits)
      from visitBinding_untouched[OF this] b True show ?thesis by simp
    next
      case False
      then show ?thesis by simp
    qed
    with ih_frame[OF k2] show ?thesis by simp
  qed
  have compiled: "(definitionNN, k) \<in> set calls"
    if ok: "configurationError info = None" and listed: "k \<in> set (key # keys)"
      and stored: "bis k = Some b'" and absent: "validator b' = None" for k b'
  proof (cases "k = key")
    case True
    with b stored absent ok calls show ?thesis by simp
  next
    case False
    with listed have "k \<in> set keys" by simp
    moreover from False stored have "?bis k = Some b'" by simp
    ultimately have "(definitionNN, k) \<in> set calls2"
      using ih_compiled[OF ok _ _ absent] by blast
    with calls show ?thesis by simp
  qed
  from source frame compiled show ?case by blast
qed

lemma rebuildPolicies_facts:
  "rebuildPolicies sv ctrls idx defs bis = Inr (res, calls, bis') \<Longrightarrow>
   (\<forall>d k. (d, k) \<in> set calls \<longrightarrow>
      (\<exists>info. (d, info) \<in> set defs \<and> configurationError info = None \<and>
              k \<in> set (dependentsOf idx d))) \<and>
   (\<forall>k. k \<notin> snd ` set calls \<longrightarrow> bis' k = bis k) \<and>
   (\<forall>d info k b. (d, info) \<in> set defs \<longrightarrow> configurationError info = None \<longrightarrow>
      k \<in> set (dependentsOf idx d) \<longrightarrow> bis k = Some b \<longrightarrow> validator b = None \<longrightarrow>
      k \<in> snd ` set calls)"
proof (induction defs arbitrary: bis res calls bis')
  case Nil
  then show ?case by simp
next
  case (Cons entry defs)
  obtain d0 i0 where entry: "entry = (d0, i0)" by (cases entry)
  from Cons.prems entry obtain out calls1 bis1 res2 calls2 where
    visit: "collectBindings sv d0 i0 (dependentsOf idx d0) bis = Inr (out, calls1, bis1)"
    and tail: "rebuildPolicies sv ctrls idx defs bis1 = Inr (res2, calls2, bis')"
    and calls: "calls = calls1 @ calls2"
    by (auto split: sum.splits)
  note first = collectBindings_facts[OF visit]
  note first_source = first[THEN conjunct1, rule_format]
  note first_frame = first[THEN conjunct2, THEN conjunct1, rule_format]
  note first_compiled = first[THEN conjunct2, THEN conjunct2, rule_format]
  note later = Cons.IH[OF tail]
  note later_source = later[THEN conjunct1, rule_format]
  note later_frame = later[THEN conjunct2, THEN conjunct1, rule_format]
  note later_compiled = later[THEN conjunct2, THEN conjunct2, rule_format]
  have source: "\<exists>info. (d, info) \<in> set (entry # defs) \<and> configurationError info = None \<and>
              k \<in> set (dependentsOf idx d)" if "(d, k) \<in> set calls" for d k
  proof (cases "(d, k) \<in> set calls1")
    case True
    from first_source[OF True] entry show ?thesis by (intro exI[of _ i0]) simp
  next
    case False
    with that calls have "(d, k) \<in> set calls2" by simp
    from later_source[OF this] obtain info where
      "(d, info) \<in> set defs" "configurationError info = None" "k \<in> set (dependentsOf idx d)"
      by blast
    then show ?thesis by (intro exI[of _ info]) simp
  qed
  have frame: "bis' k = bis k" if "k \<notin> snd ` set calls" for k
  proof -
    from that calls have k1: "k \<notin> snd ` set calls1" and k2: "k \<notin> snd ` set calls2"
      by (simp_all add: image_Un)
    from later_frame[OF k2] first_frame[OF k1] show ?thesis by simp
  qed
  have compiled: "k \<in> snd ` set calls"
    if member: "(d, info) \<in> set (entry # defs)" and ok: "configurationError info = None"
      and listed: "k \<in> set (dependentsOf idx d)" and stored: "bis k = Some b"
      and absent: "validator b = None" for d info k b
  proof (cases "k \<in> snd ` set calls1")
    case True
    with calls show ?thesis by (simp add: image_Un)
  next
    case False
    from first_frame[OF False] stored have stored1: "bis1 k = Some b" by simp
    have "(d, info) \<noteq> (d0, i0)"
    proof
      assume eq: "(d, info) = (d0, i0)"
      with ok listed have "configurationError i0 = None" "k \<in> set (dependentsOf idx d0)"
        by simp_all
      from first_compiled[OF this stored absent] have "(d0, k) \<in> set calls1" .
      then have "k \<in> snd ` set calls1" by force
      with False show False by simp
    qed
    with member entry have "(d, info) \<in> set defs" by auto
    from later_compiled[OF this ok listed stored1 absent] calls show ?thesis
      by (simp add: image_Un)
  qed
  show ?case
  proof (intro conjI allI impI)
    fix d k assume "(d, k) \<in> set calls"
    then show "\<exists>info. (d, info) \<in> set (entry # defs) \<and> configurationError info = None \<and>
              k \<in> set (dependentsOf idx d)" by (rule source)
  next
    fix k assume "k \<notin> snd ` set calls"
    then show "bis' k = bis k" by (rule frame)
  next
    fix d info k b
    assume "(d, info) \<in> set (entry # defs)" "configurationError info = None"
       "k \<in> set (dependentsOf idx d)" "bis k = Some b" "validator b = None"
    then show "k \<in> snd ` set calls" by (rule compiled)
  qed
qed

text \<open>A definition reconcile on a state where no nil pointer is dereferenced returns such
  a state, with the cache invalidated.\<close>

lemma fetched_update_all:
  assumes "list_all P defs" and "P (nn, info')"
  shows "list_all P (AList.update nn info' (fst (snd (fetchDefinitionInfo nn defs))))"
proof (cases "map_of defs nn")
  case (Some info)
  then have "fst (snd (fetchDefinitionInfo nn defs)) = defs"
    by (simp add: fetchDefinitionInfo_def)
  with assms show ?thesis by (simp add: list_all_update)
next
  case None
  then have fresh: "nn \<notin> fst ` set defs" by (simp add: map_of_eq_None_iff)
  from None have "fst (snd (fetchDefinitionInfo nn defs)) = defs @ [(nn, zeroDefinitionInfo)]"
    by (simp add: fetchDefinitionInfo_def)
  with assms fresh show ?thesis by (simp add: update_append_new)
qed

lemma reconcile_returns_computable:
  assumes computable: "snapshotComputable c"
    and known: "dependentsKnown c (getNamespaceName ns n)"
  shows "\<exists>err c' effs.
     reconcilePolicyDefinition sv ns n d c = Inr (err, c', effs) \<and>
     cachedPolicies c' = [] \<and>
     definitionsToBindings c' = definitionsToBindings c \<and>
     bindingInfos c' = clearValidators
       (dependentsOf (definitionsToBindings c) (getNamespaceName ns n)) (bindingInfos c) \<and>
     snapshotComputable c'"
proof (cases d)
  case None
  let ?c = "c\<lparr>cachedPolicies := [],
            paramsCRDControllers :=
              fst (removeOldDependency (getNamespaceName ns n)
                     (fst (fetchDefinitionInfo (getNamespaceName ns n) (definitionInfo c))) None
                     (paramsCRDControllers c)),
            definitionInfo := AList.delete (getNamespaceName ns n) (definitionInfo c),
            bindingInfos := clearValidators
              (dependentsOf (definitionsToBindings c) (getNamespaceName ns n)) (bindingInfos c)\<rparr>"
  have "snapshotComputable ?c"
    using computable
    by (simp add: snapshotComputable_def bindingsKnown_clear bindingsKnown_delete)
  with reconcile_delete_eq[OF known, of sv] None show ?thesis by simp
next
  case (Some v)
  let ?nn = "getNamespaceName ns n"
  let ?P = "\<lambda>(definitionNN, info).
        definitionInfo.lastReconciledValue info \<noteq> None \<and>
        list_all (\<lambda>k. bindingInfos c k \<noteq> None)
          (dependentsOf (definitionsToBindings c) definitionNN)"
  from reconcile_update_shape[OF known, of sv v]
  obtain err c' effs info' where
    ret: "reconcilePolicyDefinition sv ns n (Some v) c = Inr (err, c', effs)"
    and cache: "cachedPolicies c' = []"
    and idx: "definitionsToBindings c' = definitionsToBindings c"
    and bis: "bindingInfos c' = clearValidators
                (dependentsOf (definitionsToBindings c) ?nn) (bindingInfos c)"
    and defs: "definitionInfo c' = AList.update ?nn info'
                 (fst (snd (fetchDefinitionInfo ?nn (definitionInfo c))))"
    and val: "definitionInfo.lastReconciledValue info' = Some v"
    by blast
  have all: "list_all ?P (definitionInfo c)"
    using computable by (simp add: snapshotComputable_def bindingsKnown_def)
  have new: "?P (?nn, info')"
    using known val by (simp add: dependentsKnown_def)
  have "list_all ?P (definitionInfo c')"
    unfolding defs by (rule fetched_update_all[OF all new])
  then have "bindingsKnown (definitionsToBindings c) (bindingInfos c) (definitionInfo c')"
    by (simp add: bindingsKnown_def)
  then have "snapshotComputable c'"
    by (simp add: snapshotComputable_def idx bis bindingsKnown_clear)
  with ret cache idx bis Some show ?thesis by blast
qed

text \<open>C8. The claim: every reconcile of a definition D (add, update or deletion alike) sets
  the validator of every binding listed under D to absent, forcing the recompilation of all
  of D's bindings on the next rebuild.

  The rebuild visits definition records only, and compiles only for a record without
  configuration error. After the deletion of \<^verbatim>\<open>policy-A\<close> its binding is still listed
  and has no validator, but the next read calls the compiler for nothing and the validator
  stays absent.\<close>

theorem deleted_definition_is_not_recompiled:
  "(case reconcilePolicyDefinition (servicesStub [''ConfigMap'']) [] ''policy-A'' None compiledState of
      Inl p \<Rightarrow> False
    | Inr (err, c', effs) \<Rightarrow>
        dependentsOf (definitionsToBindings c') (getNamespaceName [] ''policy-A'')
          = [getNamespaceName [] ''binding-1''] \<and>
        (case latestPolicyData (servicesStub [''ConfigMap'']) c' of
           Inl p \<Rightarrow> False
         | Inr (res, calls, c'') \<Rightarrow>
             calls = [] \<and>
             map_option validator (bindingInfos c'' (getNamespaceName [] ''binding-1''))
               = Some None))"
  by (simp add: op_defs fixture_defs)

text \<open>C8, amended. On a state where no nil pointer is dereferenced (every definition
  record holds a value, and every binding listed under a definition record or under D has a
  record), every reconcile of a definition D, whatever the new value (absent for a
  deletion) and whatever the outcome of parsing and resolution, returns, leaves the index
  as it is and leaves each binding listed under D with its record and no validator. On the
  next rebuild the compiler is called for every binding listed under D when D has a record
  without configuration error, and is called for no binding on behalf of D when D has no
  record (after a deletion) or its record holds a configuration error.\<close>

theorem reconcile_definition_resets_then_recompiles:
  assumes computable: "snapshotComputable c"
    and known: "dependentsKnown c (getNamespaceName ns n)"
  shows "\<exists>err c' effs.
     reconcilePolicyDefinition sv ns n d c = Inr (err, c', effs) \<and>
     definitionsToBindings c' = definitionsToBindings c \<and>
     (\<forall>key \<in> set (dependentsOf (definitionsToBindings c) (getNamespaceName ns n)).
        \<exists>info. bindingInfos c key = Some info \<and>
               bindingInfos c' key = Some (info\<lparr>validator := None\<rparr>)) \<and>
     (\<exists>res calls c''.
        latestPolicyData sv' c' = Inr (res, calls, c'') \<and>
        ((\<exists>info. (getNamespaceName ns n, info) \<in> set (definitionInfo c') \<and>
                 configurationError info = None) \<longrightarrow>
         set (dependentsOf (definitionsToBindings c) (getNamespaceName ns n))
           \<subseteq> snd ` set calls) \<and>
        ((\<forall>info. (getNamespaceName ns n, info) \<in> set (definitionInfo c') \<longrightarrow>
                 configurationError info \<noteq> None) \<longrightarrow>
         getNamespaceName ns n \<notin> fst ` set calls))"
proof -
  let ?nn = "getNamespaceName ns n"
  let ?keys = "dependentsOf (definitionsToBindings c) ?nn"
  from reconcile_returns_computable[OF computable known, of sv d]
  obtain err c' effs where
    ret: "reconcilePolicyDefinition sv ns n d c = Inr (err, c', effs)"
    and cache: "cachedPolicies c' = []"
    and idx: "definitionsToBindings c' = definitionsToBindings c"
    and bis: "bindingInfos c' = clearValidators ?keys (bindingInfos c)"
    and computable': "snapshotComputable c'"
    by blast
  have cleared: "\<exists>info. bindingInfos c key = Some info \<and>
               bindingInfos c' key = Some (info\<lparr>validator := None\<rparr>)" if "key \<in> set ?keys" for key
    using clearValidators_known[OF known that] by (simp add: bis)
  from latestPolicyData_rebuilds[OF cache computable', of sv']
  obtain res calls c'' where read: "latestPolicyData sv' c' = Inr (res, calls, c'')"
    by blast
  with cache obtain bis'' where
    rebuilt: "rebuildPolicies sv' (paramsCRDControllers c') (definitionsToBindings c')
                (definitionInfo c') (bindingInfos c') = Inr (res, calls, bis'')"
    by (auto simp: latestPolicyData_def split: sum.splits)
  note facts = rebuildPolicies_facts[OF rebuilt]
  note source = facts[THEN conjunct1, rule_format]
  note compiled = facts[THEN conjunct2, THEN conjunct2, rule_format]
  have recompiled: "set ?keys \<subseteq> snd ` set calls"
    if "\<exists>info. (?nn, info) \<in> set (definitionInfo c') \<and> configurationError info = None"
  proof
    fix key assume key: "key \<in> set ?keys"
    from that obtain info where member: "(?nn, info) \<in> set (definitionInfo c')"
      and ok: "configurationError info = None" by blast
    from cleared[OF key] obtain b where stored: "bindingInfos c' key = Some (b\<lparr>validator := None\<rparr>)"
      by blast
    have listed: "key \<in> set (dependentsOf (definitionsToBindings c') ?nn)"
      using key by (simp add: idx)
    from compiled[OF member ok listed stored] show "key \<in> snd ` set calls" by simp
  qed
  have silent: "?nn \<notin> fst ` set calls"
    if none: "\<forall>info. (?nn, info) \<in> set (definitionInfo c') \<longrightarrow> configurationError info \<noteq> None"
  proof
    assume "?nn \<in> fst ` set calls"
    then obtain k where "(?nn, k) \<in> set calls" by force
    from source[OF this] none show False by blast
  qed
  from ret idx cleared read recompiled silent show ?thesis by blast
qed

theorem reconcile_definition_resets_then_recompiles_witness:
  "snapshotComputable compiledState \<and>
   dependentsKnown compiledState (getNamespaceName [] ''policy-A'') \<and>
   (\<exists>err c' effs res calls c''.
      reconcilePolicyDefinition (servicesStub [''ConfigMap'']) [] ''policy-A''
        (Some (policyWith (Some configMapKind))) compiledState = Inr (err, c', effs) \<and>
      bindingInfos compiledState (getNamespaceName [] ''binding-1'') =
        Some \<lparr>validator = Some (Validator ''compiled''),
              lastReconciledValue = Some (bindingTo ''policy-A'')\<rparr> \<and>
      bindingInfos c' (getNamespaceName [] ''binding-1'') =
        Some \<lparr>validator = None, lastReconciledValue = Some (bindingTo ''policy-A'')\<rparr> \<and>
      latestPolicyData (servicesStub [''ConfigMap'']) c' = Inr (res, calls, c'') \<and>
      getNamespaceName [] ''binding-1'' \<in> snd ` set calls)"
proof -
  let ?sv = "servicesStub [''ConfigMap'']"
  let ?A = "getNamespaceName [] ''policy-A''"
  let ?b = "getNamespaceName [] ''binding-1''"
  let ?d = "Some (policyWith (Some configMapKind))"
  have computable: "snapshotComputable compiledState"
    by (simp add: snapshotComputable_def bindingsKnown_def dependentsOf_def compiledState_def
          getNamespaceName_def)
  have known: "dependentsKnown compiledState ?A"
    by (simp add: dependentsKnown_def dependentsOf_def compiledState_def getNamespaceName_def)
  have listed: "dependentsOf (definitionsToBindings compiledState) ?A = [?b]"
    by (simp add: dependentsOf_def compiledState_def getNamespaceName_def)
  have stored: "bindingInfos compiledState ?b =
        Some \<lparr>validator = Some (Validator ''compiled''),
              lastReconciledValue = Some (bindingTo ''policy-A'')\<rparr>"
    by (simp add: compiledState_def getNamespaceName_def)
  have direct: "\<exists>c' effs. reconcilePolicyDefinition ?sv [] ''policy-A'' ?d compiledState
        = Inr (None, c', effs) \<and>
      definitionInfo c' =
        [(?A, \<lparr>definitionInfo.lastReconciledValue = Some (policyWith (Some configMapKind)),
               configurationError = None\<rparr>)]"
    by (simp add: op_defs fixture_defs)
  from reconcile_definition_resets_then_recompiles[OF computable known, of ?sv ?d ?sv]
  obtain err c' effs res calls c'' where
    ret: "reconcilePolicyDefinition ?sv [] ''policy-A'' ?d compiledState = Inr (err, c', effs)"
    and cleared: "\<forall>key \<in> set (dependentsOf (definitionsToBindings compiledState) ?A).
        \<exists>info. bindingInfos compiledState key = Some info \<and>
               bindingInfos c' key = Some (info\<lparr>validator := None\<rparr>)"
    and read: "latestPolicyData ?sv c' = Inr (res, calls, c'')"
    and recompiled: "(\<exists>info. (?A, info) \<in> set (definitionInfo c') \<and>
                 configurationError info = None) \<longrightarrow>
         set (dependentsOf (definitionsToBindings compiledState) ?A) \<subseteq> snd ` set calls"
    by blast
  from direct ret have "\<exists>info. (?A, info) \<in> set (definitionInfo c') \<and> configurationError info = None"
    by auto
  with recompiled listed have called: "?b \<in> snd ` set calls" by simp
  from cleared listed stored have after: "bindingInfos c' ?b =
        Some \<lparr>validator = None, lastReconciledValue = Some (bindingTo ''policy-A'')\<rparr>"
    by simp
  show ?thesis
    using computable known ret stored after read called
    by (intro conjI exI)
qed

end
